theory Spec2Isabelle
  imports Complex_Main "HOL-Library.Word" "HOL-Library.Multiset" "HOL-Library.Monad_Syntax"
    "HOL-Library.Log_Nat"
begin

section \<open>Data model\<close>

text \<open>
  The tracing engine of \<^verbatim>\<open>src/js/imagetrace.js\<close> works on an \<^verbatim>\<open>ImageData\<close>-like
  object \<^verbatim>\<open>{data, width, height}\<close> whose \<^verbatim>\<open>data\<close> is a \<^verbatim>\<open>Uint8ClampedArray\<close>.
  A byte is an \<open>8 word\<close>; a value read from the array is a JavaScript number, here
  a \<open>nat\<close> obtained with \<open>unat\<close>. Reading a typed array beyond its length yields
  \<^verbatim>\<open>undefined\<close>, which is written out wherever the source can do it.

  Colours are objects \<^verbatim>\<open>{r, g, b, a}\<close> in \<^verbatim>\<open>imagetrace.js\<close>; the second tracer, the
  class \<^verbatim>\<open>ImageTracer\<close> of the Node library (in \<^verbatim>\<open>src/examples/usage.js\<close>), collects
  pixels \<^verbatim>\<open>{r, g, b}\<close> and returns palette entries \<^verbatim>\<open>{r, g, b, count}\<close>. The three
  shapes are one extensible record.
\<close>

type_synonym byte = "8 word"

record rgb =
  r :: nat
  g :: nat
  b :: nat

record rgba = rgb +
  a :: nat

text \<open>The field \<^verbatim>\<open>count\<close> of a palette entry of the Node library is \<open>countOf\<close> here.\<close>

record rgbc = rgb +
  countOf :: nat

datatype channel = R | G | B

fun chan :: "channel \<Rightarrow> 'z rgb_scheme \<Rightarrow> nat" where
  "chan R p = r p"
| "chan G p = g p"
| "chan B p = b p"

section \<open>Double-precision numbers\<close>

text \<open>
  The numbers of the source are IEEE 754 doubles. A finite double is modelled by the
  real number it denotes, and an arithmetic operation of the source by the exact
  operation on these reals followed by \<open>fl\<close>, the rounding to the nearest double,
  ties to the even significand: 53 significant bits, and the fixed spacing
  \<^verbatim>\<open>2^-1074\<close> below \<^verbatim>\<open>2^-1022\<close>. \<open>binExp x\<close> is the binary exponent of a positive \<open>x\<close>,
  the \<open>e\<close> with \<^verbatim>\<open>2^e <= x < 2^(e+1)\<close>, \<open>pow2 e\<close> is \<^verbatim>\<open>2^e\<close>, and \<open>ulp x\<close> is the spacing of
  the doubles around \<open>x\<close>. A decimal literal of the source such as \<^verbatim>\<open>0.299\<close> is
  \<open>fl 0.299\<close>. Results of magnitude \<^verbatim>\<open>2^1024\<close> or more, which are \<^verbatim>\<open>Infinity\<close> in the
  source, are not modelled. \<open>roundHalfEven\<close> rounds to the nearest integer, halves to
  the even one.
\<close>

definition roundHalfEven :: "real \<Rightarrow> int" where
  "roundHalfEven v =
     (let f = \<lfloor>v\<rfloor> in
      if v - of_int f < 1 / 2 then f
      else if v - of_int f > 1 / 2 then f + 1
      else if even f then f else f + 1)"

definition binExp :: "real \<Rightarrow> int" where
  "binExp x = (if 1 \<le> x then bitlen \<lfloor>x\<rfloor> - 1 else - bitlen (\<lceil>1 / x\<rceil> - 1))"

definition pow2 :: "int \<Rightarrow> real" where
  "pow2 e = (if 0 \<le> e then 2 ^ nat e else 1 / 2 ^ nat (- e))"

definition ulp :: "real \<Rightarrow> real" where
  "ulp x = pow2 (max (binExp \<bar>x\<bar>) (- 1022) - 52)"

definition fl :: "real \<Rightarrow> real" where
  "fl x = (if x = 0 then 0 else real_of_int (roundHalfEven (x / ulp x)) * ulp x)"

section \<open>Quantizer (median cut)\<close>

text \<open>
  \<^verbatim>\<open>quantize\<close>, lines 45 to 55: the loop \<^verbatim>\<open>for (i = 0; i < data.length; i += 4)\<close> reads
  four bytes at a time and keeps the pixel when \<^verbatim>\<open>a > 0\<close>. When fewer than four bytes
  remain, \<^verbatim>\<open>data[i + 3]\<close> is \<^verbatim>\<open>undefined\<close>, the comparison \<^verbatim>\<open>undefined > 0\<close> is false and
  nothing is pushed: the last equation.
\<close>

fun collectPixels :: "byte list \<Rightarrow> rgba list" where
  "collectPixels (r0 # g0 # b0 # a0 # rest) =
     (if unat a0 > 0
      then \<lparr>r = unat r0, g = unat g0, b = unat b0, a = unat a0\<rparr> # collectPixels rest
      else collectPixels rest)"
| "collectPixels _ = []"

text \<open>
  \<^verbatim>\<open>range\<close>, that is \<^verbatim>\<open>Math.max(...values) - Math.min(...values)\<close> for the values of
  one channel of a box. It is only computed for boxes of at least two pixels.
\<close>

definition rangeOf :: "'z rgb_scheme list \<Rightarrow> channel \<Rightarrow> int" where
  "rangeOf box c = int (Max (set (map (chan c) box))) - int (Min (set (map (chan c) box)))"

text \<open>
  The scan of lines 72 to 89: the state is \<^verbatim>\<open>(maxRange, maxBox, maxChannel)\<close>, starting
  at \<^verbatim>\<open>(0, 0, 'r')\<close>; boxes are visited in order, each with the channels r, g, b in
  order; a box shorter than 2 is skipped; only a strictly larger range replaces the
  state.
\<close>

definition scanStep ::
  "'z rgb_scheme list list \<Rightarrow> nat \<times> channel \<Rightarrow> int \<times> nat \<times> channel \<Rightarrow> int \<times> nat \<times> channel" where
  "scanStep boxes ic st =
     (case ic of (i, c) \<Rightarrow> case st of (maxRange, maxBox, maxChannel) \<Rightarrow>
        if length (boxes ! i) < 2 then st
        else if rangeOf (boxes ! i) c > maxRange then (rangeOf (boxes ! i) c, i, c) else st)"

definition scan :: "'z rgb_scheme list list \<Rightarrow> int \<times> nat \<times> channel" where
  "scan boxes = fold (scanStep boxes) (List.product [0..<length boxes] [R, G, B]) (0, 0, R)"

text \<open>
  \<^verbatim>\<open>boxes.splice(maxBox, 1, u, v)\<close>, and lines 93 to 97: the chosen box is sorted by
  the chosen channel (\<^verbatim>\<open>Array.prototype.sort\<close> is stable, as \<open>sort_key\<close> is) and cut
  at \<^verbatim>\<open>Math.floor(box.length / 2)\<close>.
\<close>

definition splice2 :: "'x list \<Rightarrow> nat \<Rightarrow> 'x \<Rightarrow> 'x \<Rightarrow> 'x list" where
  "splice2 xs i u v = take i xs @ [u, v] @ drop (Suc i) xs"

definition splitBox :: "'z rgb_scheme list list \<Rightarrow> nat \<Rightarrow> channel \<Rightarrow> 'z rgb_scheme list list" where
  "splitBox boxes maxBox maxChannel =
     (let box = sort_key (chan maxChannel) (boxes ! maxBox);
          mid = length box div 2
      in splice2 boxes maxBox (take mid box) (drop mid box))"

lemma length_splitBox_gt: "length boxes < length (splitBox boxes i c)"
  by (auto simp: splitBox_def splice2_def Let_def)

text \<open>
  The loop of \<^verbatim>\<open>medianCut\<close>, lines 71 to 98:
  \<^verbatim>\<open>while (boxes.length < numColors && boxes.length < pixels.length)\<close>, left early
  when \<^verbatim>\<open>maxRange === 0\<close>. \<open>npixels\<close> is \<^verbatim>\<open>pixels.length\<close>, which the in-place sort of
  the first box does not change.
\<close>

function medianCutLoop :: "int \<Rightarrow> nat \<Rightarrow> rgba list list \<Rightarrow> rgba list list" where
  "medianCutLoop numColors npixels boxes =
     (if int (length boxes) < numColors \<and> length boxes < npixels then
        (case scan boxes of (maxRange, maxBox, maxChannel) \<Rightarrow>
           if maxRange = 0 then boxes
           else medianCutLoop numColors npixels (splitBox boxes maxBox maxChannel))
      else boxes)"
  by pat_completeness auto
termination
proof (relation "measure (\<lambda>(numColors, npixels, boxes). nat (numColors - int (length boxes)))")
  show "wf (measure (\<lambda>(numColors, npixels, boxes). nat (numColors - int (length boxes))))"
    by simp
next
  fix numColors :: int and npixels :: nat and boxes :: "rgba list list"
    and st :: "int \<times> nat \<times> channel" and maxRange :: int and rest :: "nat \<times> channel"
    and maxBox :: nat and maxChannel :: channel
  assume "int (length boxes) < numColors \<and> length boxes < npixels"
  then show "((numColors, npixels, splitBox boxes maxBox maxChannel), numColors, npixels, boxes)
       \<in> measure (\<lambda>(numColors, npixels, boxes). nat (numColors - int (length boxes)))"
    using length_splitBox_gt[of boxes maxBox maxChannel] by simp
qed

text \<open>
  \<^verbatim>\<open>Math.round(v)\<close> is \<open>\<lfloor>v + 1/2\<rfloor>\<close>. The quotient of a sum of bytes by a box length
  is computed exactly enough by a double for the rounding to agree with the real
  quotient.
\<close>

definition jsRound :: "real \<Rightarrow> int" where
  "jsRound v = \<lfloor>v + 1 / 2\<rfloor>"

definition gray :: rgba where
  "gray = \<lparr>r = 128, g = 128, b = 128, a = 255\<rparr>"

definition average :: "rgba list \<Rightarrow> rgba" where
  "average box =
     (if length box = 0 then gray
      else \<lparr>r = nat (jsRound (real (sum_list (map r box)) / real (length box))),
            g = nat (jsRound (real (sum_list (map g box)) / real (length box))),
            b = nat (jsRound (real (sum_list (map b box)) / real (length box))),
            a = nat (jsRound (real (sum_list (map a box)) / real (length box)))\<rparr>)"

definition medianCut :: "rgba list \<Rightarrow> int \<Rightarrow> rgba list" where
  "medianCut pixels numColors =
     (if length pixels = 0 \<or> numColors < 1 then [gray]
      else map average (medianCutLoop numColors (length pixels) [pixels]))"

text \<open>
  \<^verbatim>\<open>quantize(imgd, options)\<close> reads \<^verbatim>\<open>imgd.data\<close> and \<^verbatim>\<open>options.numberofcolors\<close> only.
\<close>

definition quantize :: "byte list \<Rightarrow> int \<Rightarrow> rgba list" where
  "quantize dat numberofcolors =
     (let pixels = collectPixels dat in
      if length pixels = 0 then [\<lparr>r = 0, g = 0, b = 0, a = 0\<rparr>]
      else medianCut pixels numberofcolors)"

subsection \<open>The quantizer of the Node library\<close>

text \<open>
  \<^verbatim>\<open>ImageTracer.getPalette\<close> and \<^verbatim>\<open>ImageTracer.quantizeColors\<close>
  (\<^verbatim>\<open>src/examples/usage.js\<close>, lines 168 to 246). The pixels kept are those with
  \<^verbatim>\<open>a > 128\<close>; the loop is \<^verbatim>\<open>while (buckets.length < numColors)\<close> with the same scan,
  the same early exit and the same split; empty buckets are filtered from the result.
\<close>

fun getPalettePixels :: "byte list \<Rightarrow> rgb list" where
  "getPalettePixels (r0 # g0 # b0 # a0 # rest) =
     (if unat a0 > 128
      then \<lparr>r = unat r0, g = unat g0, b = unat b0\<rparr> # getPalettePixels rest
      else getPalettePixels rest)"
| "getPalettePixels _ = []"

function quantizeColorsLoop :: "int \<Rightarrow> rgb list list \<Rightarrow> rgb list list" where
  "quantizeColorsLoop numColors buckets =
     (if int (length buckets) < numColors then
        (case scan buckets of (maxRange, maxBucketIdx, maxChannel) \<Rightarrow>
           if maxRange = 0 then buckets
           else quantizeColorsLoop numColors (splitBox buckets maxBucketIdx maxChannel))
      else buckets)"
  by pat_completeness auto
termination
proof (relation "measure (\<lambda>(numColors, buckets). nat (numColors - int (length buckets)))")
  show "wf (measure (\<lambda>(numColors, buckets). nat (numColors - int (length buckets))))"
    by simp
next
  fix numColors :: int and buckets :: "rgb list list"
    and st :: "int \<times> nat \<times> channel" and maxRange :: int and rest :: "nat \<times> channel"
    and maxBucketIdx :: nat and maxChannel :: channel
  assume "int (length buckets) < numColors"
  then show "((numColors, splitBox buckets maxBucketIdx maxChannel), numColors, buckets)
       \<in> measure (\<lambda>(numColors, buckets). nat (numColors - int (length buckets)))"
    using length_splitBox_gt[of buckets maxBucketIdx maxChannel] by simp
qed

definition bucketAverage :: "rgb list \<Rightarrow> rgbc" where
  "bucketAverage bucket =
     (if length bucket = 0 then \<lparr>r = 0, g = 0, b = 0, countOf = 0\<rparr>
      else \<lparr>r = nat (jsRound (real (sum_list (map r bucket)) / real (length bucket))),
            g = nat (jsRound (real (sum_list (map g bucket)) / real (length bucket))),
            b = nat (jsRound (real (sum_list (map b bucket)) / real (length bucket))),
            countOf = length bucket\<rparr>)"

definition quantizeColors :: "rgb list \<Rightarrow> int \<Rightarrow> rgbc list" where
  "quantizeColors pixels numColors =
     (if length pixels = 0 \<or> numColors < 1 then [\<lparr>r = 128, g = 128, b = 128, countOf = 0\<rparr>]
      else filter (\<lambda>c. countOf c > 0) (map bucketAverage (quantizeColorsLoop numColors [pixels])))"

definition getPalette :: "byte list \<Rightarrow> int \<Rightarrow> rgbc list" where
  "getPalette dat numColors = quantizeColors (getPalettePixels dat) numColors"

section \<open>Indexer and layer separation\<close>

record dims =
  width :: nat
  height :: nat

record imgd = dims +
  data :: "byte list"

record indexed = dims +
  array :: "int list"

record layer = indexed +
  color :: rgba

text \<open>
  \<^verbatim>\<open>data[i]\<close> on the typed array: \<open>None\<close> is \<^verbatim>\<open>undefined\<close>. In arithmetic \<^verbatim>\<open>undefined\<close>
  becomes \<^verbatim>\<open>NaN\<close>, which propagates through \<^verbatim>\<open>-\<close>, \<^verbatim>\<open>*\<close> and \<^verbatim>\<open>+\<close> and makes every
  comparison false. \<open>jsnum\<close> holds the numbers of \<^verbatim>\<open>createIndexedImage\<close>: integers,
  \<^verbatim>\<open>NaN\<close> and the initial \<^verbatim>\<open>Infinity\<close> of \<^verbatim>\<open>minDist\<close> (which is only ever compared).
\<close>

definition rd :: "byte list \<Rightarrow> nat \<Rightarrow> nat option" where
  "rd dat i = (if i < length dat then Some (unat (dat ! i)) else None)"

datatype jsnum = Num int | NaN | Infinity

fun toNumber :: "nat option \<Rightarrow> jsnum" where
  "toNumber None = NaN"
| "toNumber (Some v) = Num (int v)"

fun jsSub :: "jsnum \<Rightarrow> jsnum \<Rightarrow> jsnum" where
  "jsSub (Num u) (Num v) = Num (u - v)"
| "jsSub _ _ = NaN"

fun jsAdd :: "jsnum \<Rightarrow> jsnum \<Rightarrow> jsnum" where
  "jsAdd (Num u) (Num v) = Num (u + v)"
| "jsAdd _ _ = NaN"

fun jsMul :: "jsnum \<Rightarrow> jsnum \<Rightarrow> jsnum" where
  "jsMul (Num u) (Num v) = Num (u * v)"
| "jsMul _ _ = NaN"

fun jsLess :: "jsnum \<Rightarrow> jsnum \<Rightarrow> bool" where
  "jsLess (Num u) (Num v) = (u < v)"
| "jsLess (Num u) Infinity = True"
| "jsLess _ _ = False"

text \<open>The inner loop of \<^verbatim>\<open>createIndexedImage\<close>, lines 136 to 150.\<close>

definition closestStep ::
  "rgba list \<Rightarrow> jsnum \<Rightarrow> jsnum \<Rightarrow> jsnum \<Rightarrow> nat \<Rightarrow> jsnum \<times> nat \<Rightarrow> jsnum \<times> nat" where
  "closestStep palette rv gv bv j st =
     (case st of (minDist, colorIdx) \<Rightarrow>
        let p = palette ! j;
            dr = jsSub rv (Num (int (r p)));
            dg = jsSub gv (Num (int (g p)));
            db = jsSub bv (Num (int (b p)));
            dist = jsAdd (jsAdd (jsMul dr dr) (jsMul dg dg)) (jsMul db db)
        in if jsLess dist minDist then (dist, j) else (minDist, colorIdx))"

definition closest :: "rgba list \<Rightarrow> jsnum \<Rightarrow> jsnum \<Rightarrow> jsnum \<Rightarrow> nat" where
  "closest palette rv gv bv =
     snd (fold (closestStep palette rv gv bv) [0..<length palette] (Infinity, 0))"

text \<open>One iteration of the outer loop: the value stored in \<^verbatim>\<open>indexed[i]\<close>.\<close>

definition pixelIndex :: "byte list \<Rightarrow> rgba list \<Rightarrow> nat \<Rightarrow> int" where
  "pixelIndex dat palette i =
     (let idx = i * 4;
          rv = toNumber (rd dat idx);
          gv = toNumber (rd dat (idx + 1));
          bv = toNumber (rd dat (idx + 2));
          av = toNumber (rd dat (idx + 3))
      in if jsLess av (Num 128) then - 1 else int (closest palette rv gv bv))"

definition createIndexedImage :: "imgd \<Rightarrow> rgba list \<Rightarrow> indexed" where
  "createIndexedImage img palette =
     \<lparr>width = width img, height = height img,
      array = map (pixelIndex (data img) palette) [0..<width img * height img]\<rparr>"

text \<open>
  \<^verbatim>\<open>layerSeparation\<close>: for each palette index, the mask is a fresh \<^verbatim>\<open>Int8Array\<close> of
  \<^verbatim>\<open>width * height\<close> zeros in which \<^verbatim>\<open>layer[i] = 1\<close> is stored for every \<open>i\<close> below
  \<^verbatim>\<open>indexed.array.length\<close> whose index is \<^verbatim>\<open>colorIdx\<close>; the layer is pushed when one
  such \<open>i\<close> exists.
\<close>

definition layerOf :: "indexed \<Rightarrow> rgba list \<Rightarrow> nat \<Rightarrow> layer" where
  "layerOf ind palette colorIdx =
     \<lparr>width = width ind, height = height ind,
      array = map (\<lambda>i. if i < length (array ind) \<and> array ind ! i = int colorIdx then 1 else 0)
                [0..<width ind * height ind],
      color = palette ! colorIdx\<rparr>"

definition hasPixels :: "indexed \<Rightarrow> nat \<Rightarrow> bool" where
  "hasPixels ind colorIdx = (int colorIdx \<in> set (array ind))"

definition layerSeparation :: "indexed \<Rightarrow> rgba list \<Rightarrow> layer list" where
  "layerSeparation ind palette =
     map (layerOf ind palette) (filter (hasPixels ind) [0..<length palette])"

section \<open>Contour tracer\<close>

text \<open>
  The options object. Only the fields that the code reads are kept
  (\<^verbatim>\<open>colorsampling\<close>, \<^verbatim>\<open>mincolorratio\<close>, \<^verbatim>\<open>colorquantcycles\<close>, \<^verbatim>\<open>qtres\<close>,
  \<^verbatim>\<open>rightangleenhance\<close>, \<^verbatim>\<open>strokewidth\<close>, \<^verbatim>\<open>linefilter\<close> and \<^verbatim>\<open>blurdelta\<close> are never
  read). \<^verbatim>\<open>ltres\<close> and \<^verbatim>\<open>scale\<close> are finite doubles; the other numeric options are
  integers, \<^verbatim>\<open>roundcoords\<close> of either sign. The colour mode \<open>Color\<close> stands for
  \<^verbatim>\<open>'color'\<close> and for every string that is neither \<^verbatim>\<open>'grayscale'\<close> nor
  \<^verbatim>\<open>'monochrome'\<close>.
\<close>

type_synonym point = "int \<times> int"

datatype colorMode = Color | Grayscale | Monochrome

record options =
  numberofcolors :: int
  pathomit :: int
  ltres :: real
  scale :: real
  roundcoords :: int
  viewbox :: bool
  desc :: bool
  blurradius :: int
  colorMode :: colorMode
  threshold :: int

definition defaultOptions :: options where
  "defaultOptions =
     \<lparr>numberofcolors = 16, pathomit = 8, ltres = 1, scale = 1, roundcoords = 1,
      viewbox = False, desc = False, blurradius = 0, colorMode = Color, threshold = 128\<rparr>"

text \<open>
  \<^verbatim>\<open>getPixel\<close> and \<^verbatim>\<open>isEdge\<close> are only used for their truth value; a read beyond
  the mask is \<^verbatim>\<open>undefined\<close>, which is falsy like 0.
\<close>

definition getPixel :: "'z layer_scheme \<Rightarrow> int \<Rightarrow> int \<Rightarrow> bool" where
  "getPixel lay px py =
     (if px < 0 \<or> px \<ge> int (width lay) \<or> py < 0 \<or> py \<ge> int (height lay) then False
      else let i = nat (py * int (width lay) + px)
           in i < length (array lay) \<and> array lay ! i \<noteq> 0)"

definition isEdge :: "'z layer_scheme \<Rightarrow> int \<Rightarrow> int \<Rightarrow> bool" where
  "isEdge lay px py =
     (if \<not> getPixel lay px py then False
      else \<not> getPixel lay (px - 1) py \<or> \<not> getPixel lay (px + 1) py \<or>
           \<not> getPixel lay px (py - 1) \<or> \<not> getPixel lay px (py + 1))"

text \<open>Direction vectors: right, down, left, up.\<close>

definition dx :: "int list" where "dx = [1, 0, - 1, 0]"
definition dy :: "int list" where "dy = [0, 1, 0, - 1]"

text \<open>
  The inner \<^verbatim>\<open>for (i = 0; i < 4; i++)\<close> of lines 225 to 237, over the remaining
  values of \<open>i\<close>: the first direction whose neighbour is a set edge pixel.
\<close>

fun findNext ::
  "'z layer_scheme \<Rightarrow> int \<Rightarrow> int \<Rightarrow> nat \<Rightarrow> nat list \<Rightarrow> (int \<times> int \<times> nat) option" where
  "findNext lay cx cy dir [] = None"
| "findNext lay cx cy dir (i # is) =
     (let newDir = (dir + 3 + i) mod 4;
          nx = cx + dx ! newDir;
          ny = cy + dy ! newDir
      in if getPixel lay nx ny \<and> isEdge lay nx ny then Some (nx, ny, newDir)
         else findNext lay cx cy dir is)"

text \<open>
  The \<^verbatim>\<open>do ... while\<close> of lines 219 to 241. One call is one run of the body followed
  by the loop test; the state is \<^verbatim>\<open>(path, visited)\<close>. A store into \<^verbatim>\<open>visited\<close> beyond
  its length is ignored by the typed array, as by \<open>list_update\<close>.
\<close>

function walk ::
  "'z layer_scheme \<Rightarrow> int \<times> int \<Rightarrow> nat \<Rightarrow> int \<Rightarrow> int \<Rightarrow> nat \<Rightarrow> nat
     \<Rightarrow> point list \<times> int list \<Rightarrow> point list \<times> int list" where
  "walk lay start maxSteps cx cy dir steps st =
     (case st of (path, visited) \<Rightarrow>
        let path' = path @ [(cx, cy)];
            visited' = visited[nat (cy * int (width lay) + cx) := 1]
        in case findNext lay cx cy dir [0, 1, 2, 3] of
             None \<Rightarrow> (path', visited')
           | Some (nx, ny, newDir) \<Rightarrow>
               if (nx, ny) \<noteq> start \<and> Suc steps < maxSteps
               then walk lay start maxSteps nx ny newDir (Suc steps) (path', visited')
               else (path', visited'))"
  by pat_completeness auto
termination
  by (relation "measure (\<lambda>(lay, start, maxSteps, cx, cy, dir, steps, st). maxSteps - steps)") auto

text \<open>The body of the two nested loops over \<open>y\<close> and \<open>x\<close>, lines 211 to 246.\<close>

definition tracePixel ::
  "'z layer_scheme \<Rightarrow> options \<Rightarrow> nat \<times> nat \<Rightarrow> int list \<times> point list list
     \<Rightarrow> int list \<times> point list list" where
  "tracePixel lay opts yx st =
     (case yx of (py, px) \<Rightarrow> case st of (visited, paths) \<Rightarrow>
        if getPixel lay (int px) (int py) \<and> visited ! (py * width lay + px) = 0
           \<and> isEdge lay (int px) (int py)
        then (case walk lay (int px, int py) (width lay * height lay * 4) (int px) (int py) 0 0
                     ([], visited) of
                (path, visited') \<Rightarrow>
                  (visited', if int (length path) \<ge> pathomit opts then paths @ [path] else paths))
        else (visited, paths))"

definition tracePaths :: "'z layer_scheme \<Rightarrow> options \<Rightarrow> point list list" where
  "tracePaths lay opts =
     snd (fold (tracePixel lay opts) (List.product [0..<height lay] [0..<width lay])
            (replicate (width lay * height lay) 0, []))"

section \<open>Path simplifier\<close>

text \<open>
  \<^verbatim>\<open>perpendicularDistance\<close>, lines 280 to 301, operation by operation; every
  intermediate result is rounded to a double. \<^verbatim>\<open>Math.sqrt\<close> is the correctly rounded
  square root. For \<^verbatim>\<open>v ** 2\<close> the language leaves the last bit to the engine; the
  model takes the rounded product \<^verbatim>\<open>v * v\<close>. \<open>vx\<close>, \<open>vy\<close> are the coordinates of
  \<^verbatim>\<open>point\<close> and \<open>sx\<close>, \<open>sy\<close> those of \<^verbatim>\<open>lineStart\<close>.
\<close>

definition perpendicularDistance :: "point \<Rightarrow> point \<Rightarrow> point \<Rightarrow> real" where
  "perpendicularDistance p lineStart lineEnd =
     (let vx = real_of_int (fst p);
          vy = real_of_int (snd p);
          sx = real_of_int (fst lineStart);
          sy = real_of_int (snd lineStart);
          ddx = fl (real_of_int (fst lineEnd) - sx);
          ddy = fl (real_of_int (snd lineEnd) - sy)
      in if ddx = 0 \<and> ddy = 0
         then fl (sqrt (fl (fl (fl (vx - sx) * fl (vx - sx)) + fl (fl (vy - sy) * fl (vy - sy)))))
         else let t = fl (fl (fl (fl (vx - sx) * ddx) + fl (fl (vy - sy) * ddy))
                            / fl (fl (ddx * ddx) + fl (ddy * ddy)));
                  nearestX = fl (sx + fl (t * ddx));
                  nearestY = fl (sy + fl (t * ddy))
              in fl (sqrt (fl (fl (fl (vx - nearestX) * fl (vx - nearestX))
                                + fl (fl (vy - nearestY) * fl (vy - nearestY))))))"

text \<open>The loop of lines 263 to 269, from \<^verbatim>\<open>(maxDist, maxIdx) = (0, 0)\<close>.\<close>

definition farthestStep :: "point list \<Rightarrow> nat \<Rightarrow> real \<times> nat \<Rightarrow> real \<times> nat" where
  "farthestStep points i st =
     (case st of (maxDist, maxIdx) \<Rightarrow>
        let dist = perpendicularDistance (points ! i) (points ! 0) (points ! (length points - 1))
        in if dist > maxDist then (dist, i) else (maxDist, maxIdx))"

definition farthest :: "point list \<Rightarrow> real \<times> nat" where
  "farthest points = fold (farthestStep points) [1..<length points - 1] (0, 0)"

text \<open>
  \<^verbatim>\<open>simplifyPath\<close> of \<^verbatim>\<open>imagetrace.js\<close> calls itself on \<^verbatim>\<open>points.slice(0, maxIdx + 1)\<close>
  and on \<^verbatim>\<open>points.slice(maxIdx)\<close>. Nothing in the source bounds the recursion, so the
  function is partial: \<open>None\<close> means that the call does not return (the engine ends
  it with a call-stack \<^verbatim>\<open>RangeError\<close>). \<^verbatim>\<open>left.slice(0, -1)\<close> is \<open>butlast left\<close>.
\<close>

partial_function (option) simplifyPath :: "point list \<Rightarrow> real \<Rightarrow> point list option" where
  "simplifyPath points tolerance =
     (if length points \<le> 2 then Some points
      else case farthest points of (maxDist, maxIdx) \<Rightarrow>
        if maxDist > tolerance
        then do {
          left \<leftarrow> simplifyPath (take (maxIdx + 1) points) tolerance;
          right \<leftarrow> simplifyPath (drop maxIdx points) tolerance;
          Some (butlast left @ right)
        }
        else Some [points ! 0, points ! (length points - 1)])"

declare simplifyPath.simps [code]

subsection \<open>The simplifier of the Node library\<close>

text \<open>
  \<^verbatim>\<open>ImageTracer.simplifyPath\<close> (\<^verbatim>\<open>src/examples/usage.js\<close>, lines 287 to 341) works on
  indices into one array, compares squared distances with \<^verbatim>\<open>tolerance * tolerance\<close>
  and starts its search at \<^verbatim>\<open>maxSqDist = sqTolerance\<close>. \<open>last'\<close> is the source's
  \<^verbatim>\<open>last\<close>. \<^verbatim>\<open>getSqSegDist\<close> is lines 291 to 309, rounded as \<^verbatim>\<open>perpendicularDistance\<close>
  is.
\<close>

definition getSqSegDist :: "point \<Rightarrow> point \<Rightarrow> point \<Rightarrow> real" where
  "getSqSegDist p p1 p2 =
     (let vx = real_of_int (fst p);
          vy = real_of_int (snd p);
          x0 = real_of_int (fst p1);
          y0 = real_of_int (snd p1);
          ddx = fl (real_of_int (fst p2) - x0);
          ddy = fl (real_of_int (snd p2) - y0);
          xy = (if ddx \<noteq> 0 \<or> ddy \<noteq> 0
                then let t = fl (fl (fl (fl (vx - x0) * ddx) + fl (fl (vy - y0) * ddy))
                                   / fl (fl (ddx * ddx) + fl (ddy * ddy)))
                     in if t > 1 then (real_of_int (fst p2), real_of_int (snd p2))
                        else if t > 0 then (fl (x0 + fl (ddx * t)), fl (y0 + fl (ddy * t)))
                        else (x0, y0)
                else (x0, y0))
      in fl (fl (fl (vx - fst xy) * fl (vx - fst xy)) + fl (fl (vy - snd xy) * fl (vy - snd xy))))"

definition dpScanStep :: "point list \<Rightarrow> nat \<Rightarrow> nat \<Rightarrow> nat \<Rightarrow> real \<times> nat \<Rightarrow> real \<times> nat" where
  "dpScanStep points first last' i st =
     (case st of (maxSqDist, index) \<Rightarrow>
        let sqDist = getSqSegDist (points ! i) (points ! first) (points ! last')
        in if sqDist > maxSqDist then (sqDist, i) else (maxSqDist, index))"

definition dpScan :: "point list \<Rightarrow> nat \<Rightarrow> nat \<Rightarrow> real \<Rightarrow> real \<times> nat" where
  "dpScan points first last' sqTolerance =
     fold (dpScanStep points first last') [first + 1..<last'] (sqTolerance, 0)"

lemma dpScanStep_mono: "fst s \<le> fst (dpScanStep points first last' j s)"
  by (cases s) (simp add: dpScanStep_def Let_def)

lemma dpScan_fold_mono: "fst s \<le> fst (fold (dpScanStep points first last') js s)"
proof (induction js arbitrary: s)
  case Nil
  show ?case by simp
next
  case (Cons j js)
  have "fst s \<le> fst (dpScanStep points first last' j s)"
    by (rule dpScanStep_mono)
  also have "\<dots> \<le> fst (fold (dpScanStep points first last') js (dpScanStep points first last' j s))"
    by (rule Cons.IH)
  finally show ?case by simp
qed

lemma dpScan_fold_keep:
  "fst (fold (dpScanStep points first last') js s) = fst s
     \<Longrightarrow> fold (dpScanStep points first last') js s = s"
proof (induction js arbitrary: s)
  case Nil
  show ?case by simp
next
  case (Cons j js)
  let ?s' = "dpScanStep points first last' j s"
  have a1: "fst s \<le> fst ?s'"
    by (rule dpScanStep_mono)
  have a2: "fst ?s' \<le> fst (fold (dpScanStep points first last') js ?s')"
    by (rule dpScan_fold_mono)
  from Cons.prems have e: "fst (fold (dpScanStep points first last') js ?s') = fst s"
    by simp
  with a1 a2 have e1: "fst ?s' = fst s"
    and e2: "fst (fold (dpScanStep points first last') js ?s') = fst ?s'"
    by simp_all
  from e1 have "?s' = s"
    by (cases s) (auto simp: dpScanStep_def Let_def split: if_splits)
  with Cons.IH[OF e2] show ?case by simp
qed

lemma dpScan_fold_index:
  "fold (dpScanStep points first last') js st = (m, idx) \<Longrightarrow> fst st < m \<Longrightarrow> idx \<in> set js"
proof (induction js arbitrary: st)
  case Nil
  then show ?case by simp
next
  case (Cons j js)
  let ?st' = "dpScanStep points first last' j st"
  have f: "fold (dpScanStep points first last') js ?st' = (m, idx)"
    using Cons.prems(1) by simp
  show ?case
  proof (cases "fst ?st' < m")
    case True
    from Cons.IH[OF f True] show ?thesis by simp
  next
    case False
    have "fst ?st' \<le> m"
      using dpScan_fold_mono[of ?st' points first last' js] f by simp
    with False have eq: "fst ?st' = m" by simp
    with f have "fst (fold (dpScanStep points first last') js ?st') = fst ?st'" by simp
    from dpScan_fold_keep[OF this] f have "?st' = (m, idx)" by simp
    with Cons.prems(2) show ?thesis
      by (cases st) (auto simp: dpScanStep_def Let_def split: if_splits)
  qed
qed

lemma dpScan_index:
  "dpScan points first last' sqTolerance = (m, idx) \<Longrightarrow> sqTolerance < m
     \<Longrightarrow> first < idx \<and> idx < last'"
  using dpScan_fold_index[of points first last' "[first + 1..<last']" "(sqTolerance, 0)" m idx]
  by (auto simp: dpScan_def)

text \<open>
  \<^verbatim>\<open>simplifyDPStep\<close> pushes onto the shared array \<^verbatim>\<open>simplified\<close>; the model returns
  the array after the call.
\<close>

function simplifyDPStep :: "point list \<Rightarrow> nat \<Rightarrow> nat \<Rightarrow> real \<Rightarrow> point list \<Rightarrow> point list" where
  "simplifyDPStep points first last' sqTolerance simplified =
     (case dpScan points first last' sqTolerance of (maxSqDist, index) \<Rightarrow>
        if maxSqDist > sqTolerance then
          let s1 = (if index - first > 1
                    then simplifyDPStep points first index sqTolerance simplified
                    else simplified);
              s2 = s1 @ [points ! index]
          in if last' - index > 1 then simplifyDPStep points index last' sqTolerance s2 else s2
        else simplified)"
  by pat_completeness auto
termination
proof (relation "measure (\<lambda>(points, first, last', sqTolerance, simplified). last' - first)")
  show "wf (measure (\<lambda>(points, first, last', sqTolerance, simplified). last' - first))"
    by simp
next
  fix points :: "point list" and first last' index :: nat and sqTolerance maxSqDist :: real
    and simplified :: "point list"
  assume "(maxSqDist, index) = dpScan points first last' sqTolerance" "sqTolerance < maxSqDist"
  then have "first < index \<and> index < last'"
    using dpScan_index[of points first last' sqTolerance maxSqDist index] by simp
  then show "((points, first, index, sqTolerance, simplified),
              points, first, last', sqTolerance, simplified)
      \<in> measure (\<lambda>(points, first, last', sqTolerance, simplified). last' - first)"
    by (simp add: diff_less_mono diff_less_mono2)
next
  fix points :: "point list" and first last' index :: nat and sqTolerance maxSqDist :: real
    and simplified s1 s2 :: "point list"
  assume "(maxSqDist, index) = dpScan points first last' sqTolerance" "sqTolerance < maxSqDist"
  then have "first < index \<and> index < last'"
    using dpScan_index[of points first last' sqTolerance maxSqDist index] by simp
  then show "((points, index, last', sqTolerance, s2),
              points, first, last', sqTolerance, simplified)
      \<in> measure (\<lambda>(points, first, last', sqTolerance, simplified). last' - first)"
    by (simp add: diff_less_mono diff_less_mono2)
qed

definition simplifyPathDP :: "point list \<Rightarrow> real \<Rightarrow> point list" where
  "simplifyPathDP path tolerance =
     (if length path \<le> 2 then path
      else let sqTolerance = fl (tolerance * tolerance);
               last' = length path - 1
           in simplifyDPStep path 0 last' sqTolerance [path ! 0] @ [path ! last'])"

section \<open>Document emitter\<close>

text \<open>
  Decimal digits of a natural number, and \<^verbatim>\<open>Number.prototype.toFixed\<close> for a number
  of digits from 0 to 100 and a double below \<^verbatim>\<open>10^21\<close> in magnitude (beyond, the source
  prints the exponent notation, which is not modelled): let \<open>n\<close> be the integer
  nearest to \<^verbatim>\<open>|x| * 10^digits\<close>, the larger one of two; its decimal digits are padded
  with zeros on the left to \<^verbatim>\<open>digits + 1\<close> characters and a point is put before the
  last \<^verbatim>\<open>digits\<close> of them; a negative \<open>x\<close> gets a minus sign. For any other number of
  digits \<^verbatim>\<open>toFixed\<close> throws a \<^verbatim>\<open>RangeError\<close>, which \<open>pathToSvg\<close> returns as an error
  value.
\<close>

fun showNat :: "nat \<Rightarrow> string" where
  "showNat n =
     (if n < 10 then [''0123456789'' ! n]
      else showNat (n div 10) @ [''0123456789'' ! (n mod 10)])"

definition toFixed :: "real \<Rightarrow> nat \<Rightarrow> string" where
  "toFixed x digits =
     (let m = showNat (nat \<lfloor>\<bar>x\<bar> * 10 ^ digits + 1 / 2\<rfloor>);
          z = replicate (digits + 1 - length m) CHR ''0'' @ m
      in (if x < 0 then ''-'' else []) @
         (if digits = 0 then m
          else take (length z - digits) z @ ''.'' @ drop (length z - digits) z))"

datatype error = NoReturn | RangeError

definition pathToSvg :: "point list \<Rightarrow> options \<Rightarrow> error + string" where
  "pathToSvg path opts =
     (if length path = 0 then Inr []
      else case simplifyPath path (ltres opts) of
        None \<Rightarrow> Inl NoReturn
      | Some simplified \<Rightarrow>
          if length simplified < 2 then Inr []
          else if roundcoords opts < 0 \<or> roundcoords opts > 100 then Inl RangeError
          else let rr = (\<lambda>val. toFixed (fl (real_of_int val * scale opts))
                                      (nat (roundcoords opts)))
               in Inr (''M '' @ rr (fst (simplified ! 0)) @ '' '' @ rr (snd (simplified ! 0)) @
                       concat (map (\<lambda>i. '' L '' @ rr (fst (simplified ! i)) @ '' ''
                                           @ rr (snd (simplified ! i)))
                                 [1..<length simplified]) @
                       '' Z''))"

text \<open>
  The document that \<^verbatim>\<open>generateSvg\<close> writes is kept as a value: the \<^verbatim>\<open>width\<close> and
  \<^verbatim>\<open>height\<close> attributes (\<^verbatim>\<open>Math.round(width * scale)\<close>), whether the \<^verbatim>\<open>viewBox\<close> attribute and the \<^verbatim>\<open>desc\<close> element
  are written, and one pair per \<^verbatim>\<open><path fill="rgba(r,g,b,a/255)" d="..."/>\<close> line, in
  the order of emission: the colour of the layer and the string \<^verbatim>\<open>d\<close>. The text of the
  source is a function of this value (the quotient \<^verbatim>\<open>a / 255\<close> is printed as a double).
  A path whose \<^verbatim>\<open>d\<close> is empty writes nothing (\<^verbatim>\<open>if (d)\<close>). The first error met ends the
  call.
\<close>

record svg =
  svgWidth :: int
  svgHeight :: int
  svgViewBox :: bool
  svgDesc :: bool
  svgPaths :: "(rgba \<times> string) list"

fun layerElements :: "layer \<Rightarrow> options \<Rightarrow> point list list \<Rightarrow> error + (rgba \<times> string) list" where
  "layerElements lay opts [] = Inr []"
| "layerElements lay opts (path # paths) =
     (case pathToSvg path opts of
        Inl e \<Rightarrow> Inl e
      | Inr dstr \<Rightarrow>
          (case layerElements lay opts paths of
             Inl e \<Rightarrow> Inl e
           | Inr es \<Rightarrow> Inr ((if dstr \<noteq> [] then [(color lay, dstr)] else []) @ es)))"

fun allElements :: "layer list \<Rightarrow> options \<Rightarrow> error + (rgba \<times> string) list" where
  "allElements [] opts = Inr []"
| "allElements (lay # layers) opts =
     (case layerElements lay opts (tracePaths lay opts) of
        Inl e \<Rightarrow> Inl e
      | Inr es \<Rightarrow>
          (case allElements layers opts of
             Inl e \<Rightarrow> Inl e
           | Inr es' \<Rightarrow> Inr (es @ es')))"

definition generateSvg :: "layer list \<Rightarrow> nat \<Rightarrow> nat \<Rightarrow> options \<Rightarrow> error + svg" where
  "generateSvg layers w h opts =
     (case allElements layers opts of
        Inl e \<Rightarrow> Inl e
      | Inr es \<Rightarrow>
          Inr \<lparr>svgWidth = jsRound (fl (real w * scale opts)),
               svgHeight = jsRound (fl (real h * scale opts)),
               svgViewBox = viewbox opts, svgDesc = desc opts, svgPaths = es\<rparr>)"

section \<open>Preprocessor\<close>

text \<open>
  The preprocessing functions write into the caller's buffer \<^verbatim>\<open>imgd.data\<close>. Each is
  modelled by the state of the caller's object after the call. \<open>None\<close> is \<^verbatim>\<open>NaN\<close>,
  which a read beyond the buffer produces. In \<^verbatim>\<open>blur\<close> the doubles are modelled by the
  exact reals, without the roundings (\<^verbatim>\<open>Math.exp\<close> is not specified to the last bit);
  in \<open>luma\<close> every operation is rounded. A store into a
  \<^verbatim>\<open>Uint8ClampedArray\<close> clamps to 0..255 and rounds halves to even, stores 0 for \<^verbatim>\<open>NaN\<close>,
  and is ignored beyond the length of the array.
\<close>

type_synonym jsreal = "real option"

definition rdReal :: "byte list \<Rightarrow> nat \<Rightarrow> jsreal" where
  "rdReal dat i = map_option real (rd dat i)"

definition toUint8Clamp :: "jsreal \<Rightarrow> byte" where
  "toUint8Clamp v =
     (case v of
        None \<Rightarrow> 0
      | Some x \<Rightarrow> if x \<le> 0 then 0 else if x \<ge> 255 then 255 else of_int (roundHalfEven x))"

text \<open>\<^verbatim>\<open>acc += data[idx] * kernel[k]\<close>\<close>

definition addMul :: "jsreal \<Rightarrow> jsreal \<Rightarrow> real \<Rightarrow> jsreal" where
  "addMul acc v k =
     (case acc of None \<Rightarrow> None
      | Some s \<Rightarrow> (case v of None \<Rightarrow> None | Some x \<Rightarrow> Some (s + x * k)))"

text \<open>The normalised kernel of \<^verbatim>\<open>blur\<close>, lines 396 to 409, for a radius of at least 1.\<close>

definition kernelOf :: "int \<Rightarrow> real list" where
  "kernelOf radius =
     (let raw = map (\<lambda>i. exp (- real_of_int ((int i - radius) * (int i - radius))
                               / real_of_int (2 * radius * radius)))
                  [0..<nat (radius * 2 + 1)];
          total = sum_list raw
      in map (\<lambda>v. v / total) raw)"

text \<open>\<^verbatim>\<open>Math.min(n - 1, Math.max(0, v + k - radius))\<close>\<close>

definition clampCoord :: "nat \<Rightarrow> nat \<Rightarrow> nat \<Rightarrow> int \<Rightarrow> nat" where
  "clampCoord n v k radius = nat (min (int n - 1) (max 0 (int v + int k - radius)))"

text \<open>
  The accumulation loops over \<open>k\<close> for channel offset \<open>c\<close> (0 to 3) of the pixel
  \<open>(px, py)\<close>, in the horizontal and in the vertical pass.
\<close>

definition hSum :: "byte list \<Rightarrow> nat \<Rightarrow> int \<Rightarrow> real list \<Rightarrow> nat \<Rightarrow> nat \<Rightarrow> nat \<Rightarrow> jsreal" where
  "hSum src w radius kern py px c =
     fold (\<lambda>k acc. addMul acc (rdReal src ((py * w + clampCoord w px k radius) * 4 + c)) (kern ! k))
       [0..<length kern] (Some 0)"

definition vSum ::
  "byte list \<Rightarrow> nat \<Rightarrow> nat \<Rightarrow> int \<Rightarrow> real list \<Rightarrow> nat \<Rightarrow> nat \<Rightarrow> nat \<Rightarrow> jsreal" where
  "vSum src w h radius kern py px c =
     fold (\<lambda>k acc. addMul acc (rdReal src ((clampCoord h py k radius * w + px) * 4 + c)) (kern ! k))
       [0..<length kern] (Some 0)"

definition store4 :: "byte list \<Rightarrow> nat \<Rightarrow> (nat \<Rightarrow> jsreal) \<Rightarrow> byte list" where
  "store4 buf idx f =
     buf[idx := toUint8Clamp (f 0), idx + 1 := toUint8Clamp (f 1),
         idx + 2 := toUint8Clamp (f 2), idx + 3 := toUint8Clamp (f 3)]"

text \<open>
  The horizontal pass reads \<^verbatim>\<open>data\<close> and writes \<^verbatim>\<open>output\<close>; the vertical pass reads
  \<^verbatim>\<open>output\<close> and writes \<^verbatim>\<open>data\<close>, the caller's buffer.
\<close>

definition horizontalPass ::
  "byte list \<Rightarrow> nat \<Rightarrow> nat \<Rightarrow> int \<Rightarrow> real list \<Rightarrow> byte list \<Rightarrow> byte list" where
  "horizontalPass dat w h radius kern output =
     fold (\<lambda>(py, px) out. store4 out ((py * w + px) * 4) (hSum dat w radius kern py px))
       (List.product [0..<h] [0..<w]) output"

definition verticalPass ::
  "byte list \<Rightarrow> nat \<Rightarrow> nat \<Rightarrow> int \<Rightarrow> real list \<Rightarrow> byte list \<Rightarrow> byte list" where
  "verticalPass output w h radius kern dat =
     fold (\<lambda>(py, px) dat'. store4 dat' ((py * w + px) * 4) (vSum output w h radius kern py px))
       (List.product [0..<h] [0..<w]) dat"

text \<open>
  \<^verbatim>\<open>blur(imgd, radius)\<close>: \<^verbatim>\<open>output\<close> starts as a copy of \<^verbatim>\<open>data\<close>
  (\<^verbatim>\<open>new Uint8ClampedArray(data)\<close>); the result is the caller's object, whose buffer
  holds what the vertical pass stored.
\<close>

definition blur :: "imgd \<Rightarrow> int \<Rightarrow> imgd" where
  "blur img radius =
     (if radius < 1 then img
      else let kern = kernelOf radius;
               output = horizontalPass (data img) (width img) (height img) radius kern (data img)
           in img\<lparr>data := verticalPass output (width img) (height img) radius kern (data img)\<rparr>)"

text \<open>
  \<^verbatim>\<open>0.299 * data[i] + 0.587 * data[i + 1] + 0.114 * data[i + 2]\<close>, from left to
  right, each product and each sum rounded to a double.
\<close>

definition luma :: "byte list \<Rightarrow> nat \<Rightarrow> jsreal" where
  "luma dat i =
     (case (rdReal dat i, rdReal dat (i + 1), rdReal dat (i + 2)) of
        (Some rv, Some gv, Some bv) \<Rightarrow>
          Some (fl (fl (fl (fl 0.299 * rv) + fl (fl 0.587 * gv)) + fl (fl 0.114 * bv)))
      | _ \<Rightarrow> None)"

text \<open>The values of \<open>i\<close> in \<^verbatim>\<open>for (i = 0; i < data.length; i += 4)\<close>.\<close>

definition pixelStarts :: "byte list \<Rightarrow> nat list" where
  "pixelStarts dat = map (\<lambda>k. 4 * k) [0..<(length dat + 3) div 4]"

definition toGrayscale :: "imgd \<Rightarrow> imgd" where
  "toGrayscale img =
     img\<lparr>data := fold (\<lambda>i dat.
         let gr = toUint8Clamp (map_option (\<lambda>v. real_of_int (jsRound v)) (luma dat i))
         in dat[i := gr, i + 1 := gr, i + 2 := gr]) (pixelStarts (data img)) (data img)\<rparr>"

definition toMonochrome :: "imgd \<Rightarrow> int \<Rightarrow> imgd" where
  "toMonochrome img thr =
     img\<lparr>data := fold (\<lambda>i dat.
         let val = (case luma dat i of
                      None \<Rightarrow> 0
                    | Some v \<Rightarrow> if v \<ge> real_of_int thr then 255 else 0)
         in dat[i := val, i + 1 := val, i + 2 := val]) (pixelStarts (data img)) (data img)\<rparr>"

section \<open>The main tracing function\<close>

text \<open>
  \<^verbatim>\<open>trace(imgd, options)\<close>, lines 459 to 485. \<open>preprocess\<close> is lines 463 to 472 as far
  as they change the caller's buffer, \<open>effectiveOptions\<close> the assignment
  \<^verbatim>\<open>opts.numberofcolors = 2\<close> of the monochrome mode. The result pairs the state of the
  caller's \<^verbatim>\<open>imgd\<close> after the call with the returned document or the error.
\<close>

definition preprocess :: "imgd \<Rightarrow> options \<Rightarrow> imgd" where
  "preprocess img opts =
     (let img1 = (if blurradius opts > 0 then blur img (blurradius opts) else img)
      in if colorMode opts = Grayscale then toGrayscale img1
         else if colorMode opts = Monochrome then toMonochrome img1 (threshold opts)
         else img1)"

definition effectiveOptions :: "options \<Rightarrow> options" where
  "effectiveOptions opts =
     (if colorMode opts = Monochrome then opts\<lparr>numberofcolors := 2\<rparr> else opts)"

definition trace :: "imgd \<Rightarrow> options \<Rightarrow> imgd \<times> (error + svg)" where
  "trace img options =
     (let img' = preprocess img options;
          opts = effectiveOptions options;
          palette = quantize (data img') (numberofcolors opts);
          ind = createIndexedImage img' palette;
          layers = layerSeparation ind palette
      in (img', generateSvg layers (width img') (height img') opts))"

section \<open>Notions used in the properties\<close>

text \<open>
  The colour of a pixel without its alpha, which is what the scan of the median cut
  compares; and the invariants of the splitting loops: there is at least one box, at
  most \<open>max 1 numColors\<close> boxes, the boxes hold the pixels of the input, and (for
  \<open>bucketsInv\<close>) no box is empty.
\<close>

text \<open>
  \<open>joinElements\<close> is how \<^verbatim>\<open>generateSvg\<close> chains what successive layers write: the
  elements are appended, and the first error ends the call.
\<close>

definition joinElements :: "error + 'e list \<Rightarrow> error + 'e list \<Rightarrow> error + 'e list" where
  "joinElements u v =
     (case u of
        Inl e \<Rightarrow> Inl e
      | Inr es \<Rightarrow> (case v of Inl e \<Rightarrow> Inl e | Inr es' \<Rightarrow> Inr (es @ es')))"

definition rgbOf :: "'z rgb_scheme \<Rightarrow> nat \<times> nat \<times> nat" where
  "rgbOf p = (r p, g p, b p)"

definition boxesInv :: "int \<Rightarrow> 'z rgb_scheme list \<Rightarrow> 'z rgb_scheme list list \<Rightarrow> bool" where
  "boxesInv numColors pixels bs \<longleftrightarrow>
     bs \<noteq> [] \<and> int (length bs) \<le> max 1 numColors \<and> mset (concat bs) = mset pixels"

definition bucketsInv :: "int \<Rightarrow> 'z rgb_scheme list \<Rightarrow> 'z rgb_scheme list list \<Rightarrow> bool" where
  "bucketsInv numColors pixels bs \<longleftrightarrow> boxesInv numColors pixels bs \<and> (\<forall>box\<in>set bs. box \<noteq> [])"

section \<open>Properties of the rounding\<close>

text \<open>
  An integer below \<^verbatim>\<open>2^53\<close> in magnitude is a double: sums, differences and products
  of integers are exact as long as they stay below this bound.
\<close>

lemma roundHalfEven_of_int: "roundHalfEven (real_of_int m) = m"
  by (simp add: roundHalfEven_def)

lemma fl_zero: "fl 0 = 0"
  by (simp add: fl_def)

lemma fl_of_int:
  assumes "\<bar>n\<bar> < 2 ^ 53"
  shows "fl (real_of_int n) = real_of_int n"
proof (cases "n = 0")
  case True
  then show ?thesis by (simp add: fl_def)
next
  case False
  define e where "e = bitlen \<bar>n\<bar> - 1"
  have pos: "0 < \<bar>n\<bar>" using False by simp
  from bitlen_bounds[OF pos] have lo: "2 ^ nat e \<le> \<bar>n\<bar>"
    by (simp add: e_def)
  have e0: "0 \<le> e"
    using pos by (simp add: e_def bitlen_def floorlog_def)
  have "(2::int) ^ nat e < 2 ^ 53" using lo assms by simp
  then have "nat e < 53"
    using power_increasing[of 53 "nat e" "2::int"] by (cases "nat e < 53") auto
  then have e52: "e \<le> 52" by simp
  have be: "binExp \<bar>real_of_int n\<bar> = e"
  proof -
    have "1 \<le> \<bar>real_of_int n\<bar>" using pos by linarith
    moreover have "\<lfloor>\<bar>real_of_int n\<bar>\<rfloor> = \<bar>n\<bar>" by (metis floor_of_int of_int_abs)
    ultimately show ?thesis by (simp add: binExp_def e_def)
  qed
  define k where "k = nat (52 - e)"
  have u: "ulp (real_of_int n) = 1 / 2 ^ k"
  proof (cases "e = 52")
    case True
    then show ?thesis by (simp add: ulp_def be pow2_def k_def)
  next
    case False
    with e52 e0 show ?thesis by (simp add: ulp_def be pow2_def k_def)
  qed
  have "real_of_int n / ulp (real_of_int n) = real_of_int (n * 2 ^ k)"
    by (simp add: u)
  then have "roundHalfEven (real_of_int n / ulp (real_of_int n)) = n * 2 ^ k"
    by (simp only: roundHalfEven_of_int)
  then show ?thesis
    using False by (simp add: fl_def u)
qed

lemma fl_numeral: "numeral k < (2 ^ 53 :: int) \<Longrightarrow> fl (numeral k) = numeral k"
  using fl_of_int[of "numeral k"] by simp

lemma fl_neg_numeral: "numeral k < (2 ^ 53 :: int) \<Longrightarrow> fl (- numeral k) = - numeral k"
  using fl_of_int[of "- numeral k"] by simp

lemma fl_one: "fl 1 = 1"
  using fl_of_int[of 1] by simp

lemma fl_half: "fl (1 / 2) = 1 / 2"
  by code_simp

lemmas fl_small = fl_zero fl_one fl_numeral fl_neg_numeral fl_half

section \<open>Properties of the quantizer\<close>

lemma scan_fold_index:
  "\<forall>ic\<in>set ics. fst ic < n \<Longrightarrow> fst (snd st) < n
     \<Longrightarrow> fst (snd (fold (scanStep boxes) ics st)) < n"
proof (induction ics arbitrary: st)
  case Nil
  then show ?case by simp
next
  case (Cons ic ics)
  have "fst (snd (scanStep boxes ic st)) < n"
    using Cons.prems by (cases ic; cases st) (auto simp: scanStep_def)
  with Cons show ?case by simp
qed

lemma scan_index: "boxes \<noteq> [] \<Longrightarrow> fst (snd (scan boxes)) < length boxes"
  unfolding scan_def by (rule scan_fold_index) auto

lemma length_splitBox: "i < length boxes \<Longrightarrow> length (splitBox boxes i c) = Suc (length boxes)"
  by (simp add: splitBox_def splice2_def Let_def)

lemma mset_concat_splitBox:
  assumes "i < length boxes"
  shows "mset (concat (splitBox boxes i c)) = mset (concat boxes)"
proof -
  have "mset (concat boxes) = mset (concat (take i boxes @ [boxes ! i] @ drop (Suc i) boxes))"
    using assms by (simp add: id_take_nth_drop[symmetric])
  also have "\<dots> = mset (concat (take i boxes)) + mset (boxes ! i) + mset (concat (drop (Suc i) boxes))"
    by simp
  also have "mset (boxes ! i) = mset (sort_key (chan c) (boxes ! i))"
    by simp
  also have "\<dots> = mset (take (length (sort_key (chan c) (boxes ! i)) div 2) (sort_key (chan c) (boxes ! i)))
      + mset (drop (length (sort_key (chan c) (boxes ! i)) div 2) (sort_key (chan c) (boxes ! i)))"
    by (metis append_take_drop_id mset_append)
  finally show ?thesis
    by (simp add: splitBox_def splice2_def Let_def)
qed

declare medianCutLoop.simps [simp del] quantizeColorsLoop.simps [simp del]

lemma medianCutLoop_stop:
  "\<not> (int (length boxes) < numColors \<and> length boxes < npixels)
     \<Longrightarrow> medianCutLoop numColors npixels boxes = boxes"
  by (subst medianCutLoop.simps) auto

lemma medianCutLoop_zero:
  "fst (scan boxes) = 0 \<Longrightarrow> medianCutLoop numColors npixels boxes = boxes"
  by (subst medianCutLoop.simps) (auto split: prod.splits)

lemma medianCutLoop_step:
  "int (length boxes) < numColors \<Longrightarrow> length boxes < npixels
     \<Longrightarrow> scan boxes = (maxRange, maxBox, maxChannel) \<Longrightarrow> maxRange \<noteq> 0
     \<Longrightarrow> medianCutLoop numColors npixels boxes
         = medianCutLoop numColors npixels (splitBox boxes maxBox maxChannel)"
  by (subst medianCutLoop.simps) auto

lemma quantizeColorsLoop_stop:
  "\<not> int (length buckets) < numColors \<Longrightarrow> quantizeColorsLoop numColors buckets = buckets"
  by (subst quantizeColorsLoop.simps) auto

lemma quantizeColorsLoop_zero:
  "fst (scan buckets) = 0 \<Longrightarrow> quantizeColorsLoop numColors buckets = buckets"
  by (subst quantizeColorsLoop.simps) (auto split: prod.splits)

lemma quantizeColorsLoop_step:
  "int (length buckets) < numColors
     \<Longrightarrow> scan buckets = (maxRange, maxBucketIdx, maxChannel) \<Longrightarrow> maxRange \<noteq> 0
     \<Longrightarrow> quantizeColorsLoop numColors buckets
         = quantizeColorsLoop numColors (splitBox buckets maxBucketIdx maxChannel)"
  by (subst quantizeColorsLoop.simps) auto

lemma medianCutLoop_rule:
  assumes "I boxes"
    and "\<And>bs m i c. I bs \<Longrightarrow> int (length bs) < numColors \<Longrightarrow> length bs < npixels
            \<Longrightarrow> scan bs = (m, i, c) \<Longrightarrow> m \<noteq> 0 \<Longrightarrow> I (splitBox bs i c)"
  shows "I (medianCutLoop numColors npixels boxes)
     \<and> (\<not> (int (length (medianCutLoop numColors npixels boxes)) < numColors
            \<and> length (medianCutLoop numColors npixels boxes) < npixels)
          \<or> fst (scan (medianCutLoop numColors npixels boxes)) = 0)"
  using assms
proof (induction numColors npixels boxes rule: medianCutLoop.induct)
  case (1 numColors npixels boxes)
  obtain maxRange maxBox maxChannel where sc: "scan boxes = (maxRange, maxBox, maxChannel)"
    by (cases "scan boxes")
  consider (stop) "\<not> (int (length boxes) < numColors \<and> length boxes < npixels)"
    | (zero) "maxRange = 0"
    | (step) "int (length boxes) < numColors" "length boxes < npixels" "maxRange \<noteq> 0"
    by blast
  then show ?case
  proof cases
    case stop
    with "1.prems"(1) show ?thesis by (simp add: medianCutLoop_stop)
  next
    case zero
    with sc "1.prems"(1) show ?thesis by (simp add: medianCutLoop_zero)
  next
    case step
    have "I (splitBox boxes maxBox maxChannel)"
      using "1.prems"(2)[OF "1.prems"(1) step(1,2) sc step(3)] .
    from "1.IH"[OF _ sc[symmetric] _ step(3) this "1.prems"(2)] step
    show ?thesis
      by (simp add: medianCutLoop_step[OF step(1,2) sc step(3)])
  qed
qed

lemma quantizeColorsLoop_rule:
  assumes "I buckets"
    and "\<And>bs m i c. I bs \<Longrightarrow> int (length bs) < numColors
            \<Longrightarrow> scan bs = (m, i, c) \<Longrightarrow> m \<noteq> 0 \<Longrightarrow> I (splitBox bs i c)"
  shows "I (quantizeColorsLoop numColors buckets)
     \<and> (\<not> int (length (quantizeColorsLoop numColors buckets)) < numColors
          \<or> fst (scan (quantizeColorsLoop numColors buckets)) = 0)"
  using assms
proof (induction numColors buckets rule: quantizeColorsLoop.induct)
  case (1 numColors buckets)
  obtain maxRange maxBox maxChannel where sc: "scan buckets = (maxRange, maxBox, maxChannel)"
    by (cases "scan buckets")
  consider (stop) "\<not> int (length buckets) < numColors"
    | (zero) "maxRange = 0"
    | (step) "int (length buckets) < numColors" "maxRange \<noteq> 0"
    by blast
  then show ?case
  proof cases
    case stop
    with "1.prems"(1) show ?thesis by (simp add: quantizeColorsLoop_stop)
  next
    case zero
    with sc "1.prems"(1) show ?thesis by (simp add: quantizeColorsLoop_zero)
  next
    case step
    have "I (splitBox buckets maxBox maxChannel)"
      using "1.prems"(2)[OF "1.prems"(1) step(1) sc step(2)] .
    from "1.IH"[OF step(1) sc[symmetric] _ step(2) this "1.prems"(2)] step
    show ?thesis
      by (simp add: quantizeColorsLoop_step[OF step(1) sc step(2)])
  qed
qed

lemma boxesInv_init: "boxesInv numColors pixels [pixels]"
  by (simp add: boxesInv_def)

lemma boxesInv_split:
  assumes "boxesInv numColors pixels bs" "int (length bs) < numColors" "scan bs = (m, i, c)"
  shows "boxesInv numColors pixels (splitBox bs i c)"
proof -
  have ne: "bs \<noteq> []" using assms(1) by (simp add: boxesInv_def)
  have idx: "i < length bs" using scan_index[OF ne] assms(3) by simp
  have len: "length (splitBox bs i c) = Suc (length bs)"
    by (rule length_splitBox[OF idx])
  show ?thesis
    using assms(1,2) len mset_concat_splitBox[OF idx, of c]
    by (auto simp: boxesInv_def)
qed

lemma medianCutLoop_inv:
  "boxesInv numColors pixels (medianCutLoop numColors npixels [pixels])"
  using medianCutLoop_rule[of "boxesInv numColors pixels" "[pixels]" numColors npixels]
  by (auto intro: boxesInv_init boxesInv_split)

lemma quantizeColorsLoop_inv:
  "boxesInv numColors pixels (quantizeColorsLoop numColors [pixels])"
  using quantizeColorsLoop_rule[of "boxesInv numColors pixels" "[pixels]" numColors]
  by (auto intro: boxesInv_init boxesInv_split)

lemma length_medianCut:
  "1 \<le> length (medianCut pixels numColors)
     \<and> int (length (medianCut pixels numColors)) \<le> max 1 numColors"
  using medianCutLoop_inv[of numColors pixels "length pixels"]
  by (auto simp: medianCut_def boxesInv_def Suc_le_eq)

lemma length_quantize:
  "1 \<le> length (quantize dat numColors)
     \<and> int (length (quantize dat numColors)) \<le> max 1 numColors"
  using length_medianCut[of "collectPixels dat" numColors]
  by (simp add: quantize_def Let_def)

lemma bucketAverage_count: "countOf (bucketAverage bucket) = length bucket"
  by (simp add: bucketAverage_def)

lemma length_quantizeColors:
  "1 \<le> length (quantizeColors pixels numColors)
     \<and> int (length (quantizeColors pixels numColors)) \<le> max 1 numColors"
proof (cases "length pixels = 0 \<or> numColors < 1")
  case True
  then show ?thesis by (auto simp: quantizeColors_def)
next
  case False
  define bs where "bs = quantizeColorsLoop numColors [pixels]"
  define res where "res = filter (\<lambda>c. countOf c > 0) (map bucketAverage bs)"
  have inv: "boxesInv numColors pixels bs"
    unfolding bs_def by (rule quantizeColorsLoop_inv)
  have "mset (concat bs) \<noteq> {#}"
    using inv False by (auto simp: boxesInv_def)
  then have "concat bs \<noteq> []" by simp
  then obtain bucket where bk: "bucket \<in> set bs" "bucket \<noteq> []" by auto
  then have "bucketAverage bucket \<in> set res"
    by (simp add: res_def bucketAverage_count)
  then have lo: "1 \<le> length res"
    by (cases res) simp_all
  have "length res \<le> length (map bucketAverage bs)"
    unfolding res_def by (rule length_filter_le)
  then have hi: "int (length res) \<le> max 1 numColors"
    using inv by (simp add: boxesInv_def)
  have "quantizeColors pixels numColors = res"
    using False by (simp add: quantizeColors_def res_def bs_def)
  with lo hi show ?thesis by simp
qed

text \<open>
  Claim C3. For every pixel buffer and every requested colour count \<open>N \<ge> 1\<close>, the
  palette of the quantizer has at least 1 and at most \<open>N\<close> entries. This holds for
  \<^verbatim>\<open>quantize\<close> of \<^verbatim>\<open>imagetrace.js\<close> and for \<^verbatim>\<open>getPalette\<close> of the Node library.
\<close>

theorem palette_size_bounds:
  "1 \<le> N \<Longrightarrow>
     1 \<le> length (quantize dat N) \<and> int (length (quantize dat N)) \<le> N
     \<and> 1 \<le> length (getPalette dat N) \<and> int (length (getPalette dat N)) \<le> N"
  using length_quantize[of dat N] length_quantizeColors[of "getPalettePixels dat" N]
  by (simp add: getPalette_def)

theorem palette_size_bounds_witness:
  "(1::int) \<le> 3
     \<and> 1 \<le> length (quantize [255, 0, 0, 255, 0, 0, 255, 255] 3)
     \<and> int (length (quantize [255, 0, 0, 255, 0, 0, 255, 255] 3)) \<le> 3
     \<and> 1 \<le> length (getPalette [255, 0, 0, 255, 0, 0, 255, 255] 3)
     \<and> int (length (getPalette [255, 0, 0, 255, 0, 0, 255, 255] 3)) \<le> 3"
  using palette_size_bounds[of 3 "[255, 0, 0, 255, 0, 0, 255, 255]"] by simp

lemma scanStep_mono: "fst st \<le> fst (scanStep boxes ic st)"
  by (cases ic; cases st) (simp add: scanStep_def)

lemma scan_fold_mono: "fst st \<le> fst (fold (scanStep boxes) ics st)"
proof (induction ics arbitrary: st)
  case Nil
  show ?case by simp
next
  case (Cons ic ics)
  have "fst st \<le> fst (scanStep boxes ic st)" by (rule scanStep_mono)
  also have "\<dots> \<le> fst (fold (scanStep boxes) ics (scanStep boxes ic st))" by (rule Cons.IH)
  finally show ?case by simp
qed

lemma scan_fold_max:
  "(i, c) \<in> set ics \<Longrightarrow> 2 \<le> length (boxes ! i)
     \<Longrightarrow> rangeOf (boxes ! i) c \<le> fst (fold (scanStep boxes) ics st)"
proof (induction ics arbitrary: st)
  case Nil
  then show ?case by simp
next
  case (Cons ic ics)
  show ?case
  proof (cases "ic = (i, c)")
    case True
    have "rangeOf (boxes ! i) c \<le> fst (scanStep boxes ic st)"
      using True Cons.prems(2) by (cases st) (simp add: scanStep_def)
    also have "\<dots> \<le> fst (fold (scanStep boxes) ics (scanStep boxes ic st))"
      by (rule scan_fold_mono)
    finally show ?thesis by simp
  next
    case False
    with Cons.prems have "(i, c) \<in> set ics" by simp
    from Cons.IH[OF this Cons.prems(2)] show ?thesis by simp
  qed
qed

lemma scan_zero:
  assumes "fst (scan boxes) = 0" "box \<in> set boxes" "2 \<le> length box"
  shows "rangeOf box c \<le> 0"
proof -
  from assms(2) obtain i where i: "i < length boxes" "boxes ! i = box"
    by (auto simp: in_set_conv_nth)
  have "(i, c) \<in> set (List.product [0..<length boxes] [R, G, B])"
    using i(1) by (cases c) auto
  from scan_fold_max[OF this, of boxes "(0, 0, R)"] i(2) assms(1,3)
  show ?thesis by (simp add: scan_def)
qed

lemma rangeOf_zero_eq:
  assumes "rangeOf box c \<le> 0" "p \<in> set box" "q \<in> set box"
  shows "chan c p = chan c q"
proof -
  let ?S = "set (map (chan c) box)"
  have fin: "finite ?S" by simp
  have pin: "chan c p \<in> ?S" and qin: "chan c q \<in> ?S" using assms by auto
  have "Max ?S \<le> Min ?S" using assms(1) by (simp add: rangeOf_def)
  moreover have "Min ?S \<le> chan c p" "chan c p \<le> Max ?S" "Min ?S \<le> chan c q" "chan c q \<le> Max ?S"
    using fin pin qin by (auto intro: Min_le Max_ge)
  ultimately show ?thesis by linarith
qed

lemma uniform_box_card:
  assumes "fst (scan boxes) = 0" "box \<in> set boxes"
  shows "card (rgbOf ` set box) \<le> 1"
proof (cases "2 \<le> length box")
  case True
  have eq: "\<And>p q. p \<in> set box \<Longrightarrow> q \<in> set box \<Longrightarrow> rgbOf p = rgbOf q"
  proof -
    fix p q assume pq: "p \<in> set box" "q \<in> set box"
    have "chan R p = chan R q" "chan G p = chan G q" "chan B p = chan B q"
      using rangeOf_zero_eq[OF scan_zero[OF assms True] pq] by blast+
    then show "rgbOf p = rgbOf q" by (simp add: rgbOf_def)
  qed
  obtain p0 where "p0 \<in> set box" using True by (cases box) auto
  then have "rgbOf ` set box \<subseteq> {rgbOf p0}" using eq by blast
  then have "card (rgbOf ` set box) \<le> card {rgbOf p0}" by (intro card_mono) auto
  then show ?thesis by simp
next
  case False
  then have "length box \<le> 1" by simp
  have "card (rgbOf ` set box) \<le> card (set box)" by (rule card_image_le) simp
  also have "\<dots> \<le> length box" by (rule card_length)
  finally show ?thesis using \<open>length box \<le> 1\<close> by simp
qed

lemma card_UN_set_le:
  assumes "\<forall>x\<in>set xs. finite (f x) \<and> card (f x) \<le> 1"
  shows "card (\<Union>x\<in>set xs. f x) \<le> length xs"
  using assms
proof (induction xs)
  case Nil
  show ?case by simp
next
  case (Cons x xs)
  have "card (f x \<union> (\<Union>y\<in>set xs. f y)) \<le> card (f x) + card (\<Union>y\<in>set xs. f y)"
    by (rule card_Un_le)
  also have "\<dots> \<le> 1 + length xs" using Cons by (simp add: add_mono)
  finally show ?case by simp
qed

lemma distinct_le_boxes:
  assumes "fst (scan boxes) = 0"
  shows "card (rgbOf ` set (concat boxes)) \<le> length boxes"
proof -
  have "rgbOf ` set (concat boxes) = (\<Union>box\<in>set boxes. rgbOf ` set box)" by auto
  moreover have "card (\<Union>box\<in>set boxes. rgbOf ` set box) \<le> length boxes"
    using uniform_box_card[OF assms] by (intro card_UN_set_le) auto
  ultimately show ?thesis by simp
qed

lemma distinct_le_length: "card (rgbOf ` set pixels) \<le> length pixels"
proof -
  have "card (rgbOf ` set pixels) \<le> card (set pixels)" by (rule card_image_le) simp
  also have "\<dots> \<le> length pixels" by (rule card_length)
  finally show ?thesis .
qed

lemma medianCut_distinct_le:
  assumes "int (card (rgbOf ` set pixels)) < numColors"
  shows "card (rgbOf ` set pixels) \<le> length (medianCut pixels numColors)"
proof (cases "length pixels = 0 \<or> numColors < 1")
  case True
  with assms have "pixels = []" by auto
  then show ?thesis by simp
next
  case False
  define bs where "bs = medianCutLoop numColors (length pixels) [pixels]"
  have rule: "boxesInv numColors pixels bs
     \<and> (\<not> (int (length bs) < numColors \<and> length bs < length pixels) \<or> fst (scan bs) = 0)"
    unfolding bs_def
    using medianCutLoop_rule[of "boxesInv numColors pixels" "[pixels]" numColors "length pixels"]
    by (auto intro: boxesInv_init boxesInv_split)
  then have "mset (concat bs) = mset pixels" by (simp add: boxesInv_def)
  then have sets: "set (concat bs) = set pixels" by (rule mset_eq_setD)
  have "card (rgbOf ` set pixels) \<le> length bs"
  proof -
    consider "\<not> int (length bs) < numColors" | "\<not> length bs < length pixels" | "fst (scan bs) = 0"
      using rule by blast
    then show ?thesis
    proof cases
      case 1
      with assms show ?thesis by linarith
    next
      case 2
      with distinct_le_length[of pixels] show ?thesis by linarith
    next
      case 3
      from distinct_le_boxes[OF this] sets show ?thesis by simp
    qed
  qed
  moreover have "length (medianCut pixels numColors) = length bs"
    using False by (simp add: medianCut_def bs_def)
  ultimately show ?thesis by simp
qed

lemma scan_fold_chosen:
  "(fst st \<noteq> 0 \<longrightarrow> 2 \<le> length (boxes ! fst (snd st)))
     \<Longrightarrow> fst (fold (scanStep boxes) ics st) \<noteq> 0
     \<Longrightarrow> 2 \<le> length (boxes ! fst (snd (fold (scanStep boxes) ics st)))"
proof (induction ics arbitrary: st)
  case Nil
  then show ?case by simp
next
  case (Cons ic ics)
  have "fst (scanStep boxes ic st) \<noteq> 0 \<longrightarrow> 2 \<le> length (boxes ! fst (snd (scanStep boxes ic st)))"
    using Cons.prems(1) by (cases ic; cases st) (auto simp: scanStep_def)
  from Cons.IH[OF this] Cons.prems(2) show ?case by simp
qed

lemma scan_chosen: "scan boxes = (m, i, c) \<Longrightarrow> m \<noteq> 0 \<Longrightarrow> 2 \<le> length (boxes ! i)"
  using scan_fold_chosen[of "(0, 0, R)" boxes "List.product [0..<length boxes] [R, G, B]"]
  by (simp add: scan_def)

lemma splitBox_nonempty:
  assumes "\<forall>box\<in>set bs. box \<noteq> []" "i < length bs" "2 \<le> length (bs ! i)"
  shows "\<forall>box\<in>set (splitBox bs i c). box \<noteq> []"
proof -
  let ?box = "sort_key (chan c) (bs ! i)"
  have len: "2 \<le> length ?box" using assms(3) by simp
  then have "0 < length ?box div 2" "length ?box div 2 < length ?box"
    by simp_all
  then have "length (take (length ?box div 2) ?box) \<noteq> 0" "length (drop (length ?box div 2) ?box) \<noteq> 0"
    unfolding length_take length_drop by linarith+
  then have "take (length ?box div 2) ?box \<noteq> []" "drop (length ?box div 2) ?box \<noteq> []"
    unfolding length_0_conv by blast+
  moreover have "set (take i bs) \<subseteq> set bs" "set (drop (Suc i) bs) \<subseteq> set bs"
    by (auto dest: in_set_takeD in_set_dropD)
  ultimately show ?thesis
    using assms(1) unfolding splitBox_def splice2_def Let_def by auto
qed

lemma bucketsInv_split:
  assumes "bucketsInv numColors pixels bs" "int (length bs) < numColors" "scan bs = (m, i, c)" "m \<noteq> 0"
  shows "bucketsInv numColors pixels (splitBox bs i c)"
proof -
  have ne: "bs \<noteq> []" using assms(1) by (simp add: bucketsInv_def boxesInv_def)
  have idx: "i < length bs" using scan_index[OF ne] assms(3) by simp
  show ?thesis
    using assms boxesInv_split[of numColors pixels bs m i c]
      splitBox_nonempty[OF _ idx scan_chosen[OF assms(3,4)], of c]
    by (simp add: bucketsInv_def)
qed

lemma quantizeColors_distinct_le:
  assumes "int (card (rgbOf ` set pixels)) < numColors"
  shows "card (rgbOf ` set pixels) \<le> length (quantizeColors pixels numColors)"
proof (cases "length pixels = 0 \<or> numColors < 1")
  case True
  with assms have "pixels = []" by auto
  then show ?thesis by simp
next
  case False
  define bs where "bs = quantizeColorsLoop numColors [pixels]"
  have "bucketsInv numColors pixels [pixels]"
    using False by (simp add: bucketsInv_def boxesInv_def)
  then have rule: "bucketsInv numColors pixels bs
     \<and> (\<not> int (length bs) < numColors \<or> fst (scan bs) = 0)"
    unfolding bs_def
    using quantizeColorsLoop_rule[of "bucketsInv numColors pixels" "[pixels]" numColors]
    by (auto intro: bucketsInv_split)
  then have "mset (concat bs) = mset pixels" by (simp add: bucketsInv_def boxesInv_def)
  then have sets: "set (concat bs) = set pixels" by (rule mset_eq_setD)
  have "card (rgbOf ` set pixels) \<le> length bs"
  proof -
    consider "\<not> int (length bs) < numColors" | "fst (scan bs) = 0"
      using rule by blast
    then show ?thesis
    proof cases
      case 1
      with assms show ?thesis by linarith
    next
      case 2
      from distinct_le_boxes[OF this] sets show ?thesis by simp
    qed
  qed
  moreover have "filter (\<lambda>c. countOf c > 0) (map bucketAverage bs) = map bucketAverage bs"
    using rule by (auto simp: bucketsInv_def bucketAverage_count filter_id_conv)
  then have "length (quantizeColors pixels numColors) = length bs"
    using False by (simp add: quantizeColors_def bs_def)
  ultimately show ?thesis by simp
qed

lemma nth4: "(r0 # g0 # b0 # a0 # rest) ! (4 * Suc k + j) = rest ! (4 * k + j)"
  by simp

lemma collectPixels_index:
  "length dat = 4 * n \<Longrightarrow>
     collectPixels dat
       = map (\<lambda>k. \<lparr>r = unat (dat ! (4 * k)), g = unat (dat ! (4 * k + 1)),
                     b = unat (dat ! (4 * k + 2)), a = unat (dat ! (4 * k + 3))\<rparr>)
           (filter (\<lambda>k. 0 < unat (dat ! (4 * k + 3))) [0..<n])"
proof (induction n arbitrary: dat)
  case 0
  then show ?case by simp
next
  case (Suc n)
  then obtain r0 g0 b0 a0 rest where dat: "dat = r0 # g0 # b0 # a0 # rest"
    by (cases dat; cases "tl dat"; cases "tl (tl dat)"; cases "tl (tl (tl dat))") auto
  with Suc.prems have len: "length rest = 4 * n" by simp
  have up: "[0..<Suc n] = 0 # map Suc [0..<n]"
    by (simp add: upt_conv_Cons map_Suc_upt del: upt_Suc)
  have sh: "\<And>k j. dat ! (4 * Suc k + j) = rest ! (4 * k + j)"
    unfolding dat by (rule nth4)
  have sh0: "\<And>k. dat ! (4 * Suc k) = rest ! (4 * k)"
    using sh[of _ 0] by simp
  have hd: "dat ! (4 * 0) = r0" "dat ! (4 * 0 + 1) = g0" "dat ! (4 * 0 + 2) = b0" "dat ! (4 * 0 + 3) = a0"
    unfolding dat by simp_all
  have cp: "collectPixels dat = (if 0 < unat a0 then [\<lparr>r = unat r0, g = unat g0, b = unat b0, a = unat a0\<rparr>] else []) @ collectPixels rest"
    unfolding dat by simp
  show ?case
    unfolding up cp Suc.IH[OF len]
    by (simp only: list.map filter.simps filter_map comp_def sh sh0 hd map_map split: if_splits) simp
qed

lemma pixelIndex_transparent:
  "4 * k + 3 < length dat \<Longrightarrow>
     (pixelIndex dat palette k = - 1) = (unat (dat ! (4 * k + 3)) < 128)"
  by (simp add: pixelIndex_def Let_def rd_def mult.commute del: of_nat_unat)

subsection \<open>Claims C4, C5 and C6\<close>

text \<open>
  Claim C4 says that an empty pixel set gives the single neutral-gray entry and that
  a colour count below 1 behaves as a count of 1. In \<^verbatim>\<open>imagetrace.js\<close> the guard of
  \<^verbatim>\<open>quantize\<close> answers an empty pixel set with the entry \<^verbatim>\<open>{r: 0, g: 0, b: 0, a: 0}\<close>,
  and a count below 1 gives the gray entry where a count of 1 gives the average of
  the pixels.
\<close>

theorem empty_or_nonpositive_counterexample:
  "collectPixels [0, 0, 0, 0] = []
   \<and> quantize [0, 0, 0, 0] 16 \<noteq> [gray]
   \<and> medianCut [\<lparr>r = 255, g = 0, b = 0, a = 255\<rparr>] 0 \<noteq> medianCut [\<lparr>r = 255, g = 0, b = 0, a = 255\<rparr>] 1"
  by (simp add: quantize_def medianCut_def gray_def medianCutLoop_stop average_def jsRound_def)

text \<open>
  Claim C4 as the code has it: when no pixel is collected \<^verbatim>\<open>quantize\<close> returns the
  single entry \<^verbatim>\<open>{r: 0, g: 0, b: 0, a: 0}\<close>; \<^verbatim>\<open>medianCut\<close> returns the single
  neutral-gray entry for an empty pixel list and, whatever the pixels, for a colour
  count below 1, so that the quantizer returns one gray entry and no error when
  pixels exist and the count is below 1.
\<close>

theorem empty_or_nonpositive:
  "(collectPixels dat = [] \<longrightarrow> quantize dat N = [\<lparr>r = 0, g = 0, b = 0, a = 0\<rparr>])
   \<and> medianCut [] N = [gray]
   \<and> (N < 1 \<longrightarrow> medianCut pixels N = [gray])
   \<and> (N < 1 \<longrightarrow> collectPixels dat \<noteq> [] \<longrightarrow> quantize dat N = [gray])"
  by (simp add: quantize_def medianCut_def Let_def)

theorem empty_or_nonpositive_witness:
  "collectPixels [0, 0, 0, 0] = [] \<and> quantize [0, 0, 0, 0] 0 = [\<lparr>r = 0, g = 0, b = 0, a = 0\<rparr>]
   \<and> (0::int) < 1 \<and> collectPixels [255, 0, 0, 255] \<noteq> [] \<and> quantize [255, 0, 0, 255] 0 = [gray]
   \<and> medianCut [\<lparr>r = 255, g = 0, b = 0, a = 255\<rparr>] 0 = [gray]"
  using empty_or_nonpositive[of "[0, 0, 0, 0]" 0 "[\<lparr>r = 255, g = 0, b = 0, a = 255\<rparr>]"]
    empty_or_nonpositive[of "[255, 0, 0, 255]" 0 "[\<lparr>r = 255, g = 0, b = 0, a = 255\<rparr>]"]
  by simp

text \<open>
  Claim C5 says that the quantizer clusters exactly the pixels above the 128 alpha
  cutoff of the indexer. \<^verbatim>\<open>quantize\<close> keeps every pixel with \<^verbatim>\<open>a > 0\<close>: a pixel of alpha
  1 makes the palette entry, and the indexer marks the same pixel transparent.
\<close>

theorem quantizer_pixel_set_counterexample:
  "quantize [255, 0, 0, 1] 16 = [\<lparr>r = 255, g = 0, b = 0, a = 1\<rparr>]
   \<and> pixelIndex [255, 0, 0, 1] (quantize [255, 0, 0, 1] 16) 0 = - 1"
  by (simp add: quantize_def medianCut_def medianCutLoop_stop average_def jsRound_def
      pixelIndex_def rd_def)

text \<open>
  Claim C5 as the code has it, for a buffer of \<open>n\<close> whole pixels: the pixels that
  \<^verbatim>\<open>quantize\<close> clusters are the pixels of alpha above 0, in buffer order; the buckets
  of the median cut hold exactly these pixels at the end of the loop; and every pixel
  that the indexer does not mark transparent is among them.
\<close>

theorem quantizer_pixel_set:
  "length dat = 4 * n \<Longrightarrow>
     collectPixels dat
       = map (\<lambda>k. \<lparr>r = unat (dat ! (4 * k)), g = unat (dat ! (4 * k + 1)),
                     b = unat (dat ! (4 * k + 2)), a = unat (dat ! (4 * k + 3))\<rparr>)
           (filter (\<lambda>k. 0 < unat (dat ! (4 * k + 3))) [0..<n])
     \<and> mset (concat (medianCutLoop N (length (collectPixels dat)) [collectPixels dat]))
         = mset (collectPixels dat)
     \<and> (\<forall>k<n. pixelIndex dat palette k \<noteq> - 1 \<longrightarrow> 0 < unat (dat ! (4 * k + 3)))"
proof (intro conjI allI impI)
  assume len: "length dat = 4 * n"
  show "collectPixels dat
       = map (\<lambda>k. \<lparr>r = unat (dat ! (4 * k)), g = unat (dat ! (4 * k + 1)),
                     b = unat (dat ! (4 * k + 2)), a = unat (dat ! (4 * k + 3))\<rparr>)
           (filter (\<lambda>k. 0 < unat (dat ! (4 * k + 3))) [0..<n])"
    by (rule collectPixels_index[OF len])
  show "mset (concat (medianCutLoop N (length (collectPixels dat)) [collectPixels dat]))
         = mset (collectPixels dat)"
    using medianCutLoop_inv[of N "collectPixels dat" "length (collectPixels dat)"]
    by (simp add: boxesInv_def)
  fix k assume "k < n" "pixelIndex dat palette k \<noteq> - 1"
  then show "0 < unat (dat ! (4 * k + 3))"
    using pixelIndex_transparent[of k dat palette] len by simp
qed

theorem quantizer_pixel_set_witness:
  "length [255, 0, 0, 1, 0, 0, 255, 200 :: byte] = 4 * 2
   \<and> collectPixels [255, 0, 0, 1, 0, 0, 255, 200]
       = [\<lparr>r = 255, g = 0, b = 0, a = 1\<rparr>, \<lparr>r = 0, g = 0, b = 255, a = 200\<rparr>]
   \<and> (1::nat) < 2 \<and> pixelIndex [255, 0, 0, 1, 0, 0, 255, 200] [] 1 \<noteq> - 1
   \<and> 0 < unat ([255, 0, 0, 1, 0, 0, 255, 200 :: byte] ! (4 * 1 + 3))"
  using quantizer_pixel_set[of "[255, 0, 0, 1, 0, 0, 255, 200]" 2 16 "[]"]
  by (simp add: pixelIndex_def rd_def closest_def)

lemma quantize_AAAB:
  "quantize [0,0,0,255, 0,0,0,255, 0,0,0,255, 255,0,0,255] 3
     = [\<lparr>r = 0, g = 0, b = 0, a = 255\<rparr>, \<lparr>r = 0, g = 0, b = 0, a = 255\<rparr>,
        \<lparr>r = 255, g = 0, b = 0, a = 255\<rparr>]"
proof -
  let ?A = "\<lparr>r = 0, g = 0, b = 0, a = 255\<rparr>"
  let ?B = "\<lparr>r = 255, g = 0, b = 0, a = 255\<rparr>"
  have px: "collectPixels [0,0,0,255, 0,0,0,255, 0,0,0,255, 255,0,0,255] = [?A, ?A, ?A, ?B]"
    by simp
  have s1: "scan [[?A, ?A, ?A, ?B]] = (255, 0, R)"
    by (simp add: scan_def scanStep_def rangeOf_def)
  have b1: "splitBox [[?A, ?A, ?A, ?B]] 0 R = [[?A, ?A], [?A, ?B]]"
    by (simp add: splitBox_def splice2_def)
  have s2: "scan [[?A, ?A], [?A, ?B]] = (255, 1, R)"
    by (simp add: scan_def scanStep_def rangeOf_def)
  have b2: "splitBox [[?A, ?A], [?A, ?B]] 1 R = [[?A, ?A], [?A], [?B]]"
    by (simp add: splitBox_def splice2_def)
  have loop: "medianCutLoop 3 n [[?A, ?A, ?A, ?B]] = [[?A, ?A], [?A], [?B]]" if "2 < n" for n
  proof -
    have "medianCutLoop 3 n [[?A, ?A, ?A, ?B]] = medianCutLoop 3 n [[?A, ?A], [?A, ?B]]"
      using medianCutLoop_step[OF _ _ s1, of 3 n] b1 that by simp
    also have "\<dots> = medianCutLoop 3 n [[?A, ?A], [?A], [?B]]"
      using medianCutLoop_step[OF _ _ s2, of 3 n] b2 that by simp
    also have "\<dots> = [[?A, ?A], [?A], [?B]]"
      by (rule medianCutLoop_stop) simp
    finally show ?thesis .
  qed
  show ?thesis
    by (simp add: quantize_def px medianCut_def loop average_def jsRound_def)
qed

lemma distinct_AAAB:
  "card (rgbOf ` set (collectPixels [0,0,0,255, 0,0,0,255, 0,0,0,255, 255,0,0,255])) = 2"
  by (simp add: rgbOf_def)

text \<open>
  Claim C6 says that a colour count above the number of distinct colours gives
  exactly as many entries as there are distinct colours. The split is at the middle
  of the sorted bucket, not between colours: three black pixels and one red pixel
  with a count of 3 give the palette black, black, red.
\<close>

theorem more_colors_than_distinct_counterexample:
  "int (card (rgbOf ` set (collectPixels [0,0,0,255, 0,0,0,255, 0,0,0,255, 255,0,0,255]))) < 3
   \<and> length (quantize [0,0,0,255, 0,0,0,255, 0,0,0,255, 255,0,0,255] 3)
       \<noteq> card (rgbOf ` set (collectPixels [0,0,0,255, 0,0,0,255, 0,0,0,255, 255,0,0,255]))"
  unfolding quantize_AAAB distinct_AAAB by simp

text \<open>
  Claim C6 as the code has it: when the requested count exceeds the number of
  distinct colours of the collected pixels, the loop ends (the loop functions are
  total) and the palette has at least as many entries as there are distinct colours
  and at most the requested count, for both quantizers.
\<close>

theorem more_colors_than_distinct:
  "(int (card (rgbOf ` set (collectPixels dat))) < N \<longrightarrow>
      card (rgbOf ` set (collectPixels dat)) \<le> length (quantize dat N)
      \<and> int (length (quantize dat N)) \<le> N)
   \<and> (int (card (rgbOf ` set (getPalettePixels dat))) < N \<longrightarrow>
      card (rgbOf ` set (getPalettePixels dat)) \<le> length (getPalette dat N)
      \<and> int (length (getPalette dat N)) \<le> N)"
proof (intro conjI impI)
  assume h: "int (card (rgbOf ` set (collectPixels dat))) < N"
  show "card (rgbOf ` set (collectPixels dat)) \<le> length (quantize dat N)"
  proof (cases "collectPixels dat = []")
    case True
    then show ?thesis by simp
  next
    case False
    then show ?thesis
      using medianCut_distinct_le[OF h] by (simp add: quantize_def Let_def)
  qed
  from h have "1 \<le> N" by linarith
  with length_quantize[of dat N] show "int (length (quantize dat N)) \<le> N" by simp
next
  assume h: "int (card (rgbOf ` set (getPalettePixels dat))) < N"
  show "card (rgbOf ` set (getPalettePixels dat)) \<le> length (getPalette dat N)"
    using quantizeColors_distinct_le[OF h] by (simp add: getPalette_def)
  from h have "1 \<le> N" by linarith
  with length_quantizeColors[of "getPalettePixels dat" N]
  show "int (length (getPalette dat N)) \<le> N" by (simp add: getPalette_def)
qed

theorem more_colors_than_distinct_witness:
  "int (card (rgbOf ` set (collectPixels [0,0,0,255, 0,0,0,255, 0,0,0,255, 255,0,0,255]))) < 3
   \<and> card (rgbOf ` set (collectPixels [0,0,0,255, 0,0,0,255, 0,0,0,255, 255,0,0,255]))
       \<le> length (quantize [0,0,0,255, 0,0,0,255, 0,0,0,255, 255,0,0,255] 3)
   \<and> int (length (quantize [0,0,0,255, 0,0,0,255, 0,0,0,255, 255,0,0,255] 3)) \<le> 3
   \<and> int (card (rgbOf ` set (getPalettePixels [0,0,0,255, 0,0,0,255, 0,0,0,255, 255,0,0,255]))) < 3
   \<and> card (rgbOf ` set (getPalettePixels [0,0,0,255, 0,0,0,255, 0,0,0,255, 255,0,0,255]))
       \<le> length (getPalette [0,0,0,255, 0,0,0,255, 0,0,0,255, 255,0,0,255] 3)"
proof -
  have h: "int (card (rgbOf ` set (collectPixels [0,0,0,255, 0,0,0,255, 0,0,0,255, 255,0,0,255]))) < 3"
    unfolding distinct_AAAB by simp
  have h': "int (card (rgbOf ` set (getPalettePixels [0,0,0,255, 0,0,0,255, 0,0,0,255, 255,0,0,255]))) < 3"
    by (simp add: rgbOf_def)
  from more_colors_than_distinct[of "[0,0,0,255, 0,0,0,255, 0,0,0,255, 255,0,0,255]" 3] h h'
  show ?thesis by blast
qed

section \<open>Properties of the indexer and of layer separation\<close>

lemma closest_fold_bound:
  "snd st < n \<Longrightarrow> set js \<subseteq> {..<n}
     \<Longrightarrow> snd (fold (closestStep palette rv gv bv) js st) < n"
proof (induction js arbitrary: st)
  case Nil
  then show ?case by simp
next
  case (Cons j js)
  have "snd (closestStep palette rv gv bv j st) < n"
    using Cons.prems by (cases st) (auto simp: closestStep_def Let_def)
  with Cons show ?case by simp
qed

lemma closest_bound: "palette \<noteq> [] \<Longrightarrow> closest palette rv gv bv < length palette"
  unfolding closest_def by (rule closest_fold_bound) auto

lemma pixelIndex_range:
  "palette \<noteq> [] \<Longrightarrow>
     pixelIndex dat palette i = - 1
     \<or> (0 \<le> pixelIndex dat palette i \<and> pixelIndex dat palette i < int (length palette))"
  using closest_bound[of palette] by (simp add: pixelIndex_def Let_def)

lemma filter_eq_upt: "c < n \<Longrightarrow> filter (\<lambda>k. k = c) [0..<n] = [c]"
proof (induction n)
  case 0
  then show ?case by simp
next
  case (Suc n)
  show ?case
  proof (cases "c = n")
    case True
    have "filter (\<lambda>k. k = n) [0..<n] = []" by (simp add: filter_empty_conv)
    with True show ?thesis by simp
  next
    case False
    with Suc have "filter (\<lambda>k. k = c) [0..<n] = [c]" by simp
    with False show ?thesis by simp
  qed
qed

lemma layerOf_nth:
  "i < width ind * height ind \<Longrightarrow>
     array (layerOf ind palette c) ! i
       = (if i < length (array ind) \<and> array ind ! i = int c then 1 else 0)"
  by (simp add: layerOf_def)

lemma layers_at_pixel:
  assumes i: "i < width ind * height ind" "i < length (array ind)"
  shows "filter (\<lambda>lay. array lay ! i = 1) (layerSeparation ind palette)
     = map (layerOf ind palette)
         (filter (\<lambda>c. array ind ! i = int c) (filter (hasPixels ind) [0..<length palette]))"
proof -
  have "\<And>c. (array (layerOf ind palette c) ! i = 1) = (array ind ! i = int c)"
    using i by (simp add: layerOf_nth)
  then show ?thesis
    by (simp add: layerSeparation_def filter_map comp_def)
qed

text \<open>
  Claim C7. A palette has at least one entry (\<open>length_quantize\<close>: the quantizer
  never returns less). For every buffer and every such palette: the indexed image
  has one value per pixel of the grid; each value is \<open>-1\<close> or an index into the
  palette, and it is \<open>-1\<close> exactly when the alpha of the pixel is below 128; the masks
  hold only 0 and 1; a pixel of index \<open>-1\<close> is set in no mask and every other pixel is
  set in exactly one mask of the emitted layers; and every emitted layer has a set
  pixel.
\<close>

theorem index_partition:
  "palette \<noteq> [] \<Longrightarrow>
     (let ind = createIndexedImage img palette;
          layers = layerSeparation ind palette;
          n = width img * height img
      in length (array ind) = n
         \<and> (\<forall>i<n. array ind ! i = - 1
                  \<or> (0 \<le> array ind ! i \<and> array ind ! i < int (length palette)))
         \<and> (\<forall>i<n. 4 * i + 3 < length (data img) \<longrightarrow>
                  (array ind ! i = - 1) = (unat (data img ! (4 * i + 3)) < 128))
         \<and> (\<forall>i<n. \<forall>lay\<in>set layers. array lay ! i = 0 \<or> array lay ! i = 1)
         \<and> (\<forall>i<n. if array ind ! i = - 1
                   then \<forall>lay\<in>set layers. array lay ! i = 0
                   else length (filter (\<lambda>lay. array lay ! i = 1) layers) = 1)
         \<and> (\<forall>lay\<in>set layers. \<exists>i<n. array lay ! i = 1))"
proof -
  assume ne: "palette \<noteq> []"
  define ind where "ind = createIndexedImage img palette"
  define layers where "layers = layerSeparation ind palette"
  define n where "n = width img * height img"
  have dims: "width ind * height ind = n"
    by (simp add: ind_def n_def createIndexedImage_def)
  have len: "length (array ind) = n"
    by (simp add: ind_def n_def createIndexedImage_def)
  have nth: "array ind ! i = pixelIndex (data img) palette i" if "i < n" for i
    using that by (simp add: ind_def n_def createIndexedImage_def)
  have range: "\<forall>i<n. array ind ! i = - 1
                  \<or> (0 \<le> array ind ! i \<and> array ind ! i < int (length palette))"
    using pixelIndex_range[OF ne] by (simp add: nth)
  have transp: "\<forall>i<n. 4 * i + 3 < length (data img) \<longrightarrow>
                  (array ind ! i = - 1) = (unat (data img ! (4 * i + 3)) < 128)"
    by (simp add: nth pixelIndex_transparent)
  have bits: "\<forall>i<n. \<forall>lay\<in>set layers. array lay ! i = 0 \<or> array lay ! i = 1"
    using dims by (auto simp: layers_def layerSeparation_def layerOf_nth)
  have part: "\<forall>i<n. if array ind ! i = - 1
                   then \<forall>lay\<in>set layers. array lay ! i = 0
                   else length (filter (\<lambda>lay. array lay ! i = 1) layers) = 1"
  proof (intro allI impI)
    fix i assume i: "i < n"
    show "if array ind ! i = - 1
          then \<forall>lay\<in>set layers. array lay ! i = 0
          else length (filter (\<lambda>lay. array lay ! i = 1) layers) = 1"
    proof (cases "array ind ! i = - 1")
      case True
      then show ?thesis
        using i dims by (auto simp: layers_def layerSeparation_def layerOf_nth)
    next
      case False
      with range i have v: "0 \<le> array ind ! i" "array ind ! i < int (length palette)"
        by auto
      define c where "c = nat (array ind ! i)"
      have c: "array ind ! i = int c" "c < length palette"
        using v by (simp_all add: c_def)
      have "array ind ! i \<in> set (array ind)"
        using i len by (intro nth_mem) simp
      then have "int c \<in> set (array ind)"
        using c(1) by simp
      then have hp: "hasPixels ind c" by (simp add: hasPixels_def)
      have "filter (\<lambda>k. array ind ! i = int k) (filter (hasPixels ind) [0..<length palette])
          = filter (hasPixels ind) (filter (\<lambda>k. k = c) [0..<length palette])"
        using c(1) by (simp add: conj_commute eq_commute[of c])
      also have "\<dots> = [c]"
        using hp by (simp add: filter_eq_upt[OF c(2)])
      finally have "filter (\<lambda>lay. array lay ! i = 1) layers = [layerOf ind palette c]"
        using layers_at_pixel[of i ind palette] i dims len by (simp add: layers_def)
      with False show ?thesis by simp
    qed
  qed
  have nonempty: "\<forall>lay\<in>set layers. \<exists>i<n. array lay ! i = 1"
  proof
    fix lay assume "lay \<in> set layers"
    then obtain c where c: "lay = layerOf ind palette c" "hasPixels ind c"
      by (auto simp: layers_def layerSeparation_def)
    from c(2) obtain i where i: "i < length (array ind)" "array ind ! i = int c"
      by (auto simp: hasPixels_def in_set_conv_nth)
    then have "array lay ! i = 1"
      using c(1) len dims by (simp add: layerOf_nth)
    with i(1) len show "\<exists>i<n. array lay ! i = 1" by auto
  qed
  show ?thesis
    using len range transp bits part nonempty
    unfolding Let_def ind_def[symmetric] layers_def[symmetric] n_def[symmetric]
    by blast
qed

theorem index_partition_witness:
  "[\<lparr>r = 0, g = 0, b = 255, a = 255\<rparr>, \<lparr>r = 255, g = 0, b = 0, a = 255\<rparr>] \<noteq> []
   \<and> (let ind = createIndexedImage \<lparr>width = 2, height = 1, data = [255, 0, 0, 255, 0, 0, 0, 0]\<rparr>
                 [\<lparr>r = 0, g = 0, b = 255, a = 255\<rparr>, \<lparr>r = 255, g = 0, b = 0, a = 255\<rparr>];
            layers = layerSeparation ind
                 [\<lparr>r = 0, g = 0, b = 255, a = 255\<rparr>, \<lparr>r = 255, g = 0, b = 0, a = 255\<rparr>]
        in array ind = [1, - 1] \<and> map array layers = [[1, 0]]
           \<and> (\<forall>i<2. if array ind ! i = - 1
                   then \<forall>lay\<in>set layers. array lay ! i = 0
                   else length (filter (\<lambda>lay. array lay ! i = 1) layers) = 1))"
proof -
  let ?pal = "[\<lparr>r = 0, g = 0, b = 255, a = 255\<rparr>, \<lparr>r = 255, g = 0, b = 0, a = 255\<rparr>]"
  let ?img = "\<lparr>width = 2, height = 1, data = [255, 0, 0, 255, 0, 0, 0, 0]\<rparr>"
  have h: "?pal \<noteq> []" by simp
  have a: "array (createIndexedImage ?img ?pal) = [1, - 1]"
    by code_simp
  have l: "map array (layerSeparation (createIndexedImage ?img ?pal) ?pal) = [[1, 0]]"
    by code_simp
  from index_partition[OF h, of ?img] h a l show ?thesis
    by (simp add: Let_def)
qed

section \<open>The two by two scenario\<close>

lemma quantize_22:
  "quantize [255, 0, 0, 255, 0, 0, 255, 255, 255, 0, 0, 255, 0, 0, 255, 255] 2
     = [\<lparr>r = 0, g = 0, b = 255, a = 255\<rparr>, \<lparr>r = 255, g = 0, b = 0, a = 255\<rparr>]"
  by code_simp

lemma layers_22:
  "layerSeparation
     (createIndexedImage
        \<lparr>width = 2, height = 2,
         data = [255, 0, 0, 255, 0, 0, 255, 255, 255, 0, 0, 255, 0, 0, 255, 255]\<rparr>
        [\<lparr>r = 0, g = 0, b = 255, a = 255\<rparr>, \<lparr>r = 255, g = 0, b = 0, a = 255\<rparr>])
     [\<lparr>r = 0, g = 0, b = 255, a = 255\<rparr>, \<lparr>r = 255, g = 0, b = 0, a = 255\<rparr>]
   = [\<lparr>width = 2, height = 2, array = [0, 1, 0, 1], color = \<lparr>r = 0, g = 0, b = 255, a = 255\<rparr>\<rparr>,
      \<lparr>width = 2, height = 2, array = [1, 0, 1, 0], color = \<lparr>r = 255, g = 0, b = 0, a = 255\<rparr>\<rparr>]"
  by code_simp

lemma walk_22_blue:
  "fst (walk \<lparr>width = 2, height = 2, array = [0, 1, 0, 1], color = \<lparr>r = 0, g = 0, b = 255, a = 255\<rparr>\<rparr>
         (1, 0) 16 1 0 0 0 ([], [0, 0, 0, 0])) = [(1, 0), (1, 1)]"
  by code_simp

lemma walk_22_red:
  "fst (walk \<lparr>width = 2, height = 2, array = [1, 0, 1, 0], color = \<lparr>r = 255, g = 0, b = 0, a = 255\<rparr>\<rparr>
         (0, 0) 16 0 0 0 0 ([], [0, 0, 0, 0])) = [(0, 0), (0, 1)]"
  by code_simp

lemma tracePaths_22_blue:
  "tracePaths \<lparr>width = 2, height = 2, array = [0, 1, 0, 1], color = \<lparr>r = 0, g = 0, b = 255, a = 255\<rparr>\<rparr>
     (defaultOptions\<lparr>numberofcolors := 2, scale := 1, roundcoords := 0\<rparr>) = []"
  by code_simp

lemma tracePaths_22_red:
  "tracePaths \<lparr>width = 2, height = 2, array = [1, 0, 1, 0], color = \<lparr>r = 255, g = 0, b = 0, a = 255\<rparr>\<rparr>
     (defaultOptions\<lparr>numberofcolors := 2, scale := 1, roundcoords := 0\<rparr>) = []"
  by code_simp

lemma tracePaths_22_blue_omit2:
  "tracePaths \<lparr>width = 2, height = 2, array = [0, 1, 0, 1], color = \<lparr>r = 0, g = 0, b = 255, a = 255\<rparr>\<rparr>
     (defaultOptions\<lparr>numberofcolors := 2, pathomit := 2, scale := 1, roundcoords := 0\<rparr>) = [[(1, 0), (1, 1)]]"
  by code_simp

lemma trace_22:
  "snd (trace \<lparr>width = 2, height = 2,
          data = [255, 0, 0, 255, 0, 0, 255, 255, 255, 0, 0, 255, 0, 0, 255, 255]\<rparr>
         (defaultOptions\<lparr>numberofcolors := 2, scale := 1, roundcoords := 0\<rparr>))
   = Inr \<lparr>svgWidth = 2, svgHeight = 2, svgViewBox = False, svgDesc = False, svgPaths = []\<rparr>"
proof -
  define opts where "opts = defaultOptions\<lparr>numberofcolors := 2, scale := 1, roundcoords := 0\<rparr>"
  define img where "img = \<lparr>width = 2, height = 2,
          data = [255, 0, 0, 255, 0, 0, 255, 255, 255, 0, 0, 255, 0, 0, 255, 255]\<rparr>"
  have pre: "preprocess img opts = img"
    by (simp add: preprocess_def defaultOptions_def opts_def)
  have eff: "effectiveOptions opts = opts"
    by (simp add: effectiveOptions_def defaultOptions_def opts_def)
  have nc: "numberofcolors opts = 2" "scale opts = 1" "viewbox opts = False" "desc opts = False"
    by (simp_all add: defaultOptions_def opts_def)
  have im: "width img = 2" "height img = 2"
    "data img = [255, 0, 0, 255, 0, 0, 255, 255, 255, 0, 0, 255, 0, 0, 255, 255]"
    by (simp_all add: img_def)
  have tb: "tracePaths \<lparr>width = 2, height = 2, array = [0, 1, 0, 1],
                color = \<lparr>r = 0, g = 0, b = 255, a = 255\<rparr>\<rparr> opts = []"
    unfolding opts_def by (rule tracePaths_22_blue)
  have tr: "tracePaths \<lparr>width = 2, height = 2, array = [1, 0, 1, 0],
                color = \<lparr>r = 255, g = 0, b = 0, a = 255\<rparr>\<rparr> opts = []"
    unfolding opts_def by (rule tracePaths_22_red)
  have ls: "layerSeparation (createIndexedImage img
        [\<lparr>r = 0, g = 0, b = 255, a = 255\<rparr>, \<lparr>r = 255, g = 0, b = 0, a = 255\<rparr>])
        [\<lparr>r = 0, g = 0, b = 255, a = 255\<rparr>, \<lparr>r = 255, g = 0, b = 0, a = 255\<rparr>]
      = [\<lparr>width = 2, height = 2, array = [0, 1, 0, 1], color = \<lparr>r = 0, g = 0, b = 255, a = 255\<rparr>\<rparr>,
         \<lparr>width = 2, height = 2, array = [1, 0, 1, 0], color = \<lparr>r = 255, g = 0, b = 0, a = 255\<rparr>\<rparr>]"
    unfolding img_def by (rule layers_22)
  have "snd (trace img opts)
      = Inr \<lparr>svgWidth = 2, svgHeight = 2, svgViewBox = False, svgDesc = False, svgPaths = []\<rparr>"
    unfolding trace_def Let_def pre eff
    by (simp add: nc im quantize_22 ls generateSvg_def tb tr fl_small jsRound_def)
  then show ?thesis
    unfolding opts_def img_def .
qed

lemma tracePaths_22_red_omit2:
  "tracePaths \<lparr>width = 2, height = 2, array = [1, 0, 1, 0], color = \<lparr>r = 255, g = 0, b = 0, a = 255\<rparr>\<rparr>
     (defaultOptions\<lparr>numberofcolors := 2, pathomit := 2, scale := 1, roundcoords := 0\<rparr>) = [[(0, 0), (0, 1)]]"
  by code_simp

lemma pathToSvg_two_points:
  "0 \<le> roundcoords opts \<Longrightarrow> roundcoords opts \<le> 100 \<Longrightarrow>
     pathToSvg [p, q] opts
       = Inr (''M '' @ toFixed (fl (real_of_int (fst p) * scale opts)) (nat (roundcoords opts))
                @ '' '' @ toFixed (fl (real_of_int (snd p) * scale opts)) (nat (roundcoords opts))
                @ '' L '' @ toFixed (fl (real_of_int (fst q) * scale opts)) (nat (roundcoords opts))
                @ '' '' @ toFixed (fl (real_of_int (snd q) * scale opts)) (nat (roundcoords opts))
                @ '' Z'')"
  by (simp add: pathToSvg_def simplifyPath.simps Let_def)

lemma trace_22_omit2:
  "snd (trace \<lparr>width = 2, height = 2,
          data = [255, 0, 0, 255, 0, 0, 255, 255, 255, 0, 0, 255, 0, 0, 255, 255]\<rparr>
         (defaultOptions\<lparr>numberofcolors := 2, pathomit := 2, scale := 1, roundcoords := 0\<rparr>))
   = Inr \<lparr>svgWidth = 2, svgHeight = 2, svgViewBox = False, svgDesc = False,
          svgPaths = [(\<lparr>r = 0, g = 0, b = 255, a = 255\<rparr>, ''M 1 0 L 1 1 Z''),
                      (\<lparr>r = 255, g = 0, b = 0, a = 255\<rparr>, ''M 0 0 L 0 1 Z'')]\<rparr>"
proof -
  define opts where
    "opts = defaultOptions\<lparr>numberofcolors := 2, pathomit := 2, scale := 1, roundcoords := 0\<rparr>"
  define img where "img = \<lparr>width = 2, height = 2,
          data = [255, 0, 0, 255, 0, 0, 255, 255, 255, 0, 0, 255, 0, 0, 255, 255]\<rparr>"
  have pre: "preprocess img opts = img"
    by (simp add: preprocess_def defaultOptions_def opts_def)
  have eff: "effectiveOptions opts = opts"
    by (simp add: effectiveOptions_def defaultOptions_def opts_def)
  have nc: "numberofcolors opts = 2" "scale opts = 1" "viewbox opts = False" "desc opts = False"
    "roundcoords opts = 0"
    by (simp_all add: defaultOptions_def opts_def)
  have im: "width img = 2" "height img = 2"
    "data img = [255, 0, 0, 255, 0, 0, 255, 255, 255, 0, 0, 255, 0, 0, 255, 255]"
    by (simp_all add: img_def)
  have tb: "tracePaths \<lparr>width = 2, height = 2, array = [0, 1, 0, 1],
                color = \<lparr>r = 0, g = 0, b = 255, a = 255\<rparr>\<rparr> opts = [[(1, 0), (1, 1)]]"
    unfolding opts_def by (rule tracePaths_22_blue_omit2)
  have tr: "tracePaths \<lparr>width = 2, height = 2, array = [1, 0, 1, 0],
                color = \<lparr>r = 255, g = 0, b = 0, a = 255\<rparr>\<rparr> opts = [[(0, 0), (0, 1)]]"
    unfolding opts_def by (rule tracePaths_22_red_omit2)
  have ls: "layerSeparation (createIndexedImage img
        [\<lparr>r = 0, g = 0, b = 255, a = 255\<rparr>, \<lparr>r = 255, g = 0, b = 0, a = 255\<rparr>])
        [\<lparr>r = 0, g = 0, b = 255, a = 255\<rparr>, \<lparr>r = 255, g = 0, b = 0, a = 255\<rparr>]
      = [\<lparr>width = 2, height = 2, array = [0, 1, 0, 1], color = \<lparr>r = 0, g = 0, b = 255, a = 255\<rparr>\<rparr>,
         \<lparr>width = 2, height = 2, array = [1, 0, 1, 0], color = \<lparr>r = 255, g = 0, b = 0, a = 255\<rparr>\<rparr>]"
    unfolding img_def by (rule layers_22)
  have d1: "pathToSvg [(1, 0), (1, 1)] opts = Inr ''M 1 0 L 1 1 Z''"
    by (simp add: pathToSvg_two_points nc toFixed_def fl_small)
  have d2: "pathToSvg [(0, 0), (0, 1)] opts = Inr ''M 0 0 L 0 1 Z''"
    by (simp add: pathToSvg_two_points nc toFixed_def fl_small)
  have "snd (trace img opts)
      = Inr \<lparr>svgWidth = 2, svgHeight = 2, svgViewBox = False, svgDesc = False,
          svgPaths = [(\<lparr>r = 0, g = 0, b = 255, a = 255\<rparr>, ''M 1 0 L 1 1 Z''),
                      (\<lparr>r = 255, g = 0, b = 0, a = 255\<rparr>, ''M 0 0 L 0 1 Z'')]\<rparr>"
    unfolding trace_def Let_def pre eff
    by (simp add: nc im quantize_22 ls generateSvg_def tb tr d1 d2 fl_small jsRound_def)
  then show ?thesis
    unfolding opts_def img_def .
qed

text \<open>
  Claim C2 is about the 2 by 2 buffer whose left column is opaque red and whose right
  column is opaque blue, traced with 2 colours, scale 1 and 0 decimals, the other
  options at their defaults. It says that the palette is red, blue and that the
  document holds two filled regions. The bucket is sorted by ascending red, so blue
  comes first; and each contour has 2 points, below the default \<^verbatim>\<open>pathomit\<close> of 8, so
  the document holds no path.
\<close>

theorem two_by_two_counterexample:
  "quantize [255, 0, 0, 255, 0, 0, 255, 255, 255, 0, 0, 255, 0, 0, 255, 255] 2
     \<noteq> [\<lparr>r = 255, g = 0, b = 0, a = 255\<rparr>, \<lparr>r = 0, g = 0, b = 255, a = 255\<rparr>]
   \<and> snd (trace \<lparr>width = 2, height = 2,
          data = [255, 0, 0, 255, 0, 0, 255, 255, 255, 0, 0, 255, 0, 0, 255, 255]\<rparr>
         (defaultOptions\<lparr>numberofcolors := 2, scale := 1, roundcoords := 0\<rparr>))
     = Inr \<lparr>svgWidth = 2, svgHeight = 2, svgViewBox = False, svgDesc = False, svgPaths = []\<rparr>"
  using quantize_22 trace_22 by simp

text \<open>
  Claim C2 as the code has it: the palette is blue, red (entries carry the alpha 255
  and no count); there are two layers, the right column for blue and the left column
  for red; the boundary walk of each layer visits the two pixels of its column; with
  the default \<^verbatim>\<open>pathomit\<close> both contours are dropped and the document of size 2 by 2 has
  no path; with \<^verbatim>\<open>pathomit\<close> 2 the document has one path per layer, the segments
  \<^verbatim>\<open>M 1 0 L 1 1 Z\<close> and \<^verbatim>\<open>M 0 0 L 0 1 Z\<close>.
\<close>

theorem two_by_two_scenario:
  "quantize [255, 0, 0, 255, 0, 0, 255, 255, 255, 0, 0, 255, 0, 0, 255, 255] 2
     = [\<lparr>r = 0, g = 0, b = 255, a = 255\<rparr>, \<lparr>r = 255, g = 0, b = 0, a = 255\<rparr>]
   \<and> layerSeparation
       (createIndexedImage
          \<lparr>width = 2, height = 2,
          data = [255, 0, 0, 255, 0, 0, 255, 255, 255, 0, 0, 255, 0, 0, 255, 255]\<rparr>
          [\<lparr>r = 0, g = 0, b = 255, a = 255\<rparr>, \<lparr>r = 255, g = 0, b = 0, a = 255\<rparr>])
       [\<lparr>r = 0, g = 0, b = 255, a = 255\<rparr>, \<lparr>r = 255, g = 0, b = 0, a = 255\<rparr>]
     = [\<lparr>width = 2, height = 2, array = [0, 1, 0, 1], color = \<lparr>r = 0, g = 0, b = 255, a = 255\<rparr>\<rparr>,
        \<lparr>width = 2, height = 2, array = [1, 0, 1, 0], color = \<lparr>r = 255, g = 0, b = 0, a = 255\<rparr>\<rparr>]
   \<and> fst (walk \<lparr>width = 2, height = 2, array = [0, 1, 0, 1], color = \<lparr>r = 0, g = 0, b = 255, a = 255\<rparr>\<rparr>
           (1, 0) 16 1 0 0 0 ([], [0, 0, 0, 0])) = [(1, 0), (1, 1)]
   \<and> fst (walk \<lparr>width = 2, height = 2, array = [1, 0, 1, 0], color = \<lparr>r = 255, g = 0, b = 0, a = 255\<rparr>\<rparr>
           (0, 0) 16 0 0 0 0 ([], [0, 0, 0, 0])) = [(0, 0), (0, 1)]
   \<and> tracePaths \<lparr>width = 2, height = 2, array = [0, 1, 0, 1], color = \<lparr>r = 0, g = 0, b = 255, a = 255\<rparr>\<rparr>
         (defaultOptions\<lparr>numberofcolors := 2, scale := 1, roundcoords := 0\<rparr>) = []
   \<and> tracePaths \<lparr>width = 2, height = 2, array = [1, 0, 1, 0], color = \<lparr>r = 255, g = 0, b = 0, a = 255\<rparr>\<rparr>
         (defaultOptions\<lparr>numberofcolors := 2, scale := 1, roundcoords := 0\<rparr>) = []
   \<and> snd (trace \<lparr>width = 2, height = 2,
          data = [255, 0, 0, 255, 0, 0, 255, 255, 255, 0, 0, 255, 0, 0, 255, 255]\<rparr>
         (defaultOptions\<lparr>numberofcolors := 2, scale := 1, roundcoords := 0\<rparr>))
     = Inr \<lparr>svgWidth = 2, svgHeight = 2, svgViewBox = False, svgDesc = False, svgPaths = []\<rparr>
   \<and> snd (trace \<lparr>width = 2, height = 2,
          data = [255, 0, 0, 255, 0, 0, 255, 255, 255, 0, 0, 255, 0, 0, 255, 255]\<rparr>
         (defaultOptions\<lparr>numberofcolors := 2, pathomit := 2, scale := 1, roundcoords := 0\<rparr>))
     = Inr \<lparr>svgWidth = 2, svgHeight = 2, svgViewBox = False, svgDesc = False,
            svgPaths = [(\<lparr>r = 0, g = 0, b = 255, a = 255\<rparr>, ''M 1 0 L 1 1 Z''),
                        (\<lparr>r = 255, g = 0, b = 0, a = 255\<rparr>, ''M 0 0 L 0 1 Z'')]\<rparr>"
  by (intro conjI quantize_22 layers_22 walk_22_blue walk_22_red tracePaths_22_blue
      tracePaths_22_red trace_22 trace_22_omit2)

section \<open>Properties of the contour tracer\<close>

lemma dir_step:
  "nd < 4 \<Longrightarrow>
     (cx + dx ! nd, cy + dy ! nd) \<in> {(cx + 1, cy), (cx, cy + 1), (cx - 1, cy), (cx, cy - 1)}"
proof -
  assume "nd < 4"
  then consider "nd = 0" | "nd = 1" | "nd = 2" | "nd = 3" by linarith
  then show ?thesis by cases (simp_all add: dx_def dy_def)
qed

lemma findNext_Some:
  "findNext lay cx cy dir ks = Some (nx, ny, nd) \<Longrightarrow>
     getPixel lay nx ny
     \<and> (nx, ny) \<in> {(cx + 1, cy), (cx, cy + 1), (cx - 1, cy), (cx, cy - 1)}"
proof (induction ks)
  case Nil
  then show ?case by simp
next
  case (Cons k ks)
  let ?nd = "(dir + 3 + k) mod 4"
  show ?case
  proof (cases "getPixel lay (cx + dx ! ?nd) (cy + dy ! ?nd) \<and> isEdge lay (cx + dx ! ?nd) (cy + dy ! ?nd)")
    case True
    with Cons.prems have "nx = cx + dx ! ?nd" "ny = cy + dy ! ?nd"
      by (auto simp: Let_def)
    with True dir_step[of ?nd cx cy] show ?thesis by simp
  next
    case False
    with Cons.prems have "findNext lay cx cy dir ks = Some (nx, ny, nd)"
      by (simp add: Let_def)
    then show ?thesis by (rule Cons.IH)
  qed
qed

lemma findNext_isolated:
  assumes "\<not> getPixel lay (x - 1) y" "\<not> getPixel lay (x + 1) y"
    "\<not> getPixel lay x (y - 1)" "\<not> getPixel lay x (y + 1)"
  shows "findNext lay x y dir ks = None"
proof (cases "findNext lay x y dir ks")
  case None
  then show ?thesis .
next
  case (Some t)
  obtain nx ny nd where "t = (nx, ny, nd)" by (cases t)
  with Some findNext_Some[of lay x y dir ks nx ny nd] assms show ?thesis by auto
qed

declare walk.simps [simp del]

lemma walk_isolated:
  assumes "\<not> getPixel lay (x - 1) y" "\<not> getPixel lay (x + 1) y"
    "\<not> getPixel lay x (y - 1)" "\<not> getPixel lay x (y + 1)"
  shows "fst (walk lay start maxSteps x y dir steps (path, visited)) = path @ [(x, y)]"
  by (subst walk.simps) (simp add: findNext_isolated[OF assms] Let_def del: findNext.simps)

lemma walk_avoids:
  "\<not> getPixel lay (x - 1) y \<and> \<not> getPixel lay (x + 1) y
     \<and> \<not> getPixel lay x (y - 1) \<and> \<not> getPixel lay x (y + 1)
     \<Longrightarrow> getPixel lay cx cy \<Longrightarrow> (cx, cy) \<noteq> (x, y) \<Longrightarrow> (x, y) \<notin> set (fst st)
     \<Longrightarrow> (x, y) \<notin> set (fst (walk lay start maxSteps cx cy dir steps st))"
proof (induction lay start maxSteps cx cy dir steps st rule: walk.induct)
  case (1 lay start maxSteps cx cy dir steps st)
  note iso = "1.prems"(1)
  note cur = "1.prems"(2)
  obtain path visited where st: "st = (path, visited)" by (cases st)
  let ?path' = "path @ [(cx, cy)]"
  let ?visited' = "visited[nat (cy * int (width lay) + cx) := 1]"
  have p': "(x, y) \<notin> set ?path'" using "1.prems" st by auto
  show ?case
  proof (cases "findNext lay cx cy dir [0, 1, 2, 3]")
    case None
    then show ?thesis
      using p' by (subst walk.simps) (simp add: st Let_def del: findNext.simps)
  next
    case (Some t)
    obtain nx ny nd where t: "t = (nx, ny, nd)" by (cases t)
    from findNext_Some[of lay cx cy dir "[0, 1, 2, 3]" nx ny nd] Some t
    have nxt: "getPixel lay nx ny"
      "(nx, ny) \<in> {(cx + 1, cy), (cx, cy + 1), (cx - 1, cy), (cx, cy - 1)}"
      by simp_all
    have ne: "(nx, ny) \<noteq> (x, y)"
    proof
      assume "(nx, ny) = (x, y)"
      with nxt(2) have "(cx, cy) \<in> {(x - 1, y), (x, y - 1), (x + 1, y), (x, y + 1)}"
        by auto
      with cur iso show False by auto
    qed
    show ?thesis
    proof (cases "(nx, ny) \<noteq> start \<and> Suc steps < maxSteps")
      case True
      have "(x, y) \<notin> set (fst (walk lay start maxSteps nx ny nd (Suc steps) (?path', ?visited')))"
        using "1.IH"[OF st[symmetric] refl refl Some t[symmetric] refl True iso nxt(1) ne] p'
        by simp
      then show ?thesis
        using Some t True by (subst walk.simps) (simp add: st Let_def del: findNext.simps)
    next
      case False
      then show ?thesis
        using Some t p' by (subst walk.simps) (auto simp: st Let_def simp del: findNext.simps)
    qed
  qed
qed

lemma tracePixel_isolated:
  assumes iso: "\<not> getPixel lay (x - 1) y \<and> \<not> getPixel lay (x + 1) y
     \<and> \<not> getPixel lay x (y - 1) \<and> \<not> getPixel lay x (y + 1)"
    and inv: "\<forall>p\<in>set (snd st). (x, y) \<in> set p \<longrightarrow> p = [(x, y)]"
  shows "\<forall>p\<in>set (snd (tracePixel lay opts yx st)). (x, y) \<in> set p \<longrightarrow> p = [(x, y)]"
proof -
  obtain py px where yx: "yx = (py, px)" by (cases yx)
  obtain visited paths where st: "st = (visited, paths)" by (cases st)
  let ?w = "walk lay (int px, int py) (width lay * height lay * 4) (int px) (int py) 0 0 ([], visited)"
  show ?thesis
  proof (cases "getPixel lay (int px) (int py) \<and> visited ! (py * width lay + px) = 0
           \<and> isEdge lay (int px) (int py)")
    case False
    with inv show ?thesis by (auto simp: tracePixel_def yx st)
  next
    case True
    have path: "(x, y) \<in> set (fst ?w) \<longrightarrow> fst ?w = [(x, y)]"
    proof (cases "(int px, int py) = (x, y)")
      case True
      then show ?thesis
        using walk_isolated[of lay x y "(int px, int py)" "width lay * height lay * 4" 0 0 "[]" visited] iso
        by simp
    next
      case False
      then show ?thesis
        using walk_avoids[OF iso, of "int px" "int py" "([], visited)"] True by simp
    qed
    obtain path visited' where w: "?w = (path, visited')" by (cases ?w)
    with path have "(x, y) \<in> set path \<longrightarrow> path = [(x, y)]" by simp
    with inv True w show ?thesis
      by (auto simp: tracePixel_def yx st)
  qed
qed

lemma tracePaths_isolated:
  assumes iso: "\<not> getPixel lay (x - 1) y \<and> \<not> getPixel lay (x + 1) y
     \<and> \<not> getPixel lay x (y - 1) \<and> \<not> getPixel lay x (y + 1)"
  shows "\<forall>p\<in>set (tracePaths lay opts). (x, y) \<in> set p \<longrightarrow> p = [(x, y)]"
proof -
  have inv: "\<forall>p\<in>set (snd (fold (tracePixel lay opts) yxs st)). (x, y) \<in> set p \<longrightarrow> p = [(x, y)]"
    if "\<forall>p\<in>set (snd st). (x, y) \<in> set p \<longrightarrow> p = [(x, y)]" for yxs st
    using that
  proof (induction yxs arbitrary: st)
    case Nil
    then show ?case by simp
  next
    case (Cons yx yxs)
    from tracePixel_isolated[OF iso Cons.prems, of opts yx]
    show ?case by (simp add: Cons.IH)
  qed
  show ?thesis
    unfolding tracePaths_def by (rule inv) simp
qed

lemma pathToSvg_short:
  "simplifyPath path (ltres opts) = Some simplified \<Longrightarrow> length simplified < 2
     \<Longrightarrow> pathToSvg path opts = Inr []"
  by (simp add: pathToSvg_def)

lemma pathToSvg_single: "pathToSvg [p] opts = Inr []"
  by (simp add: pathToSvg_def simplifyPath.simps)

text \<open>
  Paths for which the serializer returns the empty string write nothing: the elements
  of a layer are those of its other paths, and the elements of a document are chained
  layer by layer.
\<close>

lemma layerElements_filter:
  "\<forall>path\<in>set paths. \<not> keep path \<longrightarrow> pathToSvg path opts = Inr []
     \<Longrightarrow> layerElements lay opts paths = layerElements lay opts (filter keep paths)"
proof (induction paths)
  case Nil
  show ?case by simp
next
  case (Cons path paths)
  then have ih: "layerElements lay opts paths = layerElements lay opts (filter keep paths)"
    by simp
  show ?case
  proof (cases "keep path")
    case True
    then show ?thesis by (simp add: ih split: sum.splits)
  next
    case False
    with Cons.prems have "pathToSvg path opts = Inr []" by simp
    then have "layerElements lay opts (path # paths) = layerElements lay opts paths"
      by (cases "layerElements lay opts paths") simp_all
    with False ih show ?thesis by simp
  qed
qed

lemma allElements_Cons:
  "allElements (lay # layers) opts
     = joinElements (layerElements lay opts (tracePaths lay opts)) (allElements layers opts)"
  by (simp add: joinElements_def)

lemma joinElements_assoc:
  "joinElements (joinElements u v) w = joinElements u (joinElements v w)"
  by (cases u; cases v; cases w) (simp_all add: joinElements_def)

lemma joinElements_Nil: "joinElements (Inr []) v = v"
  by (cases v) (simp_all add: joinElements_def)

lemma allElements_append:
  "allElements (before @ after) opts
     = joinElements (allElements before opts) (allElements after opts)"
proof (induction before)
  case Nil
  show ?case by (simp add: joinElements_Nil)
next
  case (Cons lay before)
  have "allElements ((lay # before) @ after) opts
      = joinElements (layerElements lay opts (tracePaths lay opts))
          (allElements (before @ after) opts)"
    by (simp add: joinElements_def)
  also have "\<dots> = joinElements (layerElements lay opts (tracePaths lay opts))
          (joinElements (allElements before opts) (allElements after opts))"
    by (simp only: Cons.IH)
  also have "\<dots> = joinElements (allElements (lay # before) opts) (allElements after opts)"
    by (simp only: allElements_Cons joinElements_assoc)
  finally show ?case .
qed

lemma generateSvg_paths:
  "generateSvg layers w h opts = Inr doc \<Longrightarrow> allElements layers opts = Inr (svgPaths doc)"
  by (cases "allElements layers opts") (auto simp: generateSvg_def)

text \<open>
  Claim C10. Let a set pixel \<open>(x, y)\<close> of a layer mask have no set pixel among its
  four neighbours (the walk only moves to these). Then, for every configuration:
  the boundary walk started at \<open>(x, y)\<close> yields the one-point path; the serializer
  returns the empty string for that path, and for every path whose simplified form
  has fewer than 2 points; every path of \<^verbatim>\<open>tracePaths\<close> that passes through
  \<open>(x, y)\<close> is that one-point path, for which no path element is written; the path
  elements written for the layer are those written for its paths that do not pass
  through \<open>(x, y)\<close>; and so are, in a document of several layers, the path elements
  of the document that \<^verbatim>\<open>generateSvg\<close> returns.
\<close>

theorem single_pixel_region_dropped:
  "getPixel lay x y \<and> \<not> getPixel lay (x - 1) y \<and> \<not> getPixel lay (x + 1) y
     \<and> \<not> getPixel lay x (y - 1) \<and> \<not> getPixel lay x (y + 1)
   \<Longrightarrow> fst (walk lay (x, y) (width lay * height lay * 4) x y 0 0 ([], visited)) = [(x, y)]
       \<and> pathToSvg [(x, y)] opts = Inr []
       \<and> (\<forall>path simplified. simplifyPath path (ltres opts) = Some simplified
              \<and> length simplified < 2 \<longrightarrow> pathToSvg path opts = Inr [])
       \<and> (\<forall>path\<in>set (tracePaths lay opts).
              (x, y) \<in> set path \<longrightarrow> path = [(x, y)] \<and> pathToSvg path opts = Inr [])
       \<and> layerElements lay opts (tracePaths lay opts)
           = layerElements lay opts
               (filter (\<lambda>path. (x, y) \<notin> set path) (tracePaths lay opts))
       \<and> (\<forall>before after.
             allElements (before @ lay # after) opts
               = joinElements (allElements before opts)
                   (joinElements
                      (layerElements lay opts
                         (filter (\<lambda>path. (x, y) \<notin> set path) (tracePaths lay opts)))
                      (allElements after opts)))
       \<and> (\<forall>before after w h doc.
             generateSvg (before @ lay # after) w h opts = Inr doc \<longrightarrow>
               joinElements (allElements before opts)
                 (joinElements
                    (layerElements lay opts
                       (filter (\<lambda>path. (x, y) \<notin> set path) (tracePaths lay opts)))
                    (allElements after opts))
               = Inr (svgPaths doc))"
proof -
  assume a: "getPixel lay x y \<and> \<not> getPixel lay (x - 1) y \<and> \<not> getPixel lay (x + 1) y
     \<and> \<not> getPixel lay x (y - 1) \<and> \<not> getPixel lay x (y + 1)"
  then have iso: "\<not> getPixel lay (x - 1) y \<and> \<not> getPixel lay (x + 1) y
     \<and> \<not> getPixel lay x (y - 1) \<and> \<not> getPixel lay x (y + 1)" by simp
  let ?kept = "filter (\<lambda>path. (x, y) \<notin> set path) (tracePaths lay opts)"
  have w: "fst (walk lay (x, y) (width lay * height lay * 4) x y 0 0 ([], visited)) = [(x, y)]"
    using walk_isolated[of lay x y "(x, y)" "width lay * height lay * 4" 0 0 "[]" visited] iso
    by simp
  have tp: "\<forall>path\<in>set (tracePaths lay opts).
              (x, y) \<in> set path \<longrightarrow> path = [(x, y)] \<and> pathToSvg path opts = Inr []"
    using tracePaths_isolated[OF iso, of opts] by (auto simp: pathToSvg_single)
  have le: "layerElements lay opts (tracePaths lay opts) = layerElements lay opts ?kept"
    by (rule layerElements_filter) (use tp in auto)
  have ae: "allElements (before @ lay # after) opts
               = joinElements (allElements before opts)
                   (joinElements (layerElements lay opts ?kept) (allElements after opts))"
    for before after
    by (simp only: allElements_append allElements_Cons le)
  have gs: "joinElements (allElements before opts)
                 (joinElements (layerElements lay opts ?kept) (allElements after opts))
               = Inr (svgPaths doc)"
    if "generateSvg (before @ lay # after) w h opts = Inr doc" for before after w h doc
    using generateSvg_paths[OF that] by (simp only: ae)
  from w tp le ae gs show ?thesis
    using pathToSvg_single pathToSvg_short by blast
qed

lemma tracePaths_dots:
  "tracePaths \<lparr>width = 3, height = 1, array = [1, 0, 1], color = \<lparr>r = 255, g = 0, b = 0, a = 255\<rparr>\<rparr>
     (defaultOptions\<lparr>pathomit := 1\<rparr>) = [[(0, 0)], [(2, 0)]]"
  by code_simp

lemma tracePaths_dot:
  "tracePaths \<lparr>width = 3, height = 1, array = [0, 1, 0], color = \<lparr>r = 0, g = 0, b = 255, a = 255\<rparr>\<rparr>
     (defaultOptions\<lparr>pathomit := 1\<rparr>) = [[(1, 0)]]"
  by code_simp

lemma generateSvg_dots:
  "generateSvg
     [\<lparr>width = 3, height = 1, array = [0, 1, 0], color = \<lparr>r = 0, g = 0, b = 255, a = 255\<rparr>\<rparr>,
      \<lparr>width = 3, height = 1, array = [1, 0, 1], color = \<lparr>r = 255, g = 0, b = 0, a = 255\<rparr>\<rparr>]
     3 1 (defaultOptions\<lparr>pathomit := 1\<rparr>)
   = Inr \<lparr>svgWidth = 3, svgHeight = 1, svgViewBox = False, svgDesc = False, svgPaths = []\<rparr>"
proof -
  have nc: "scale (defaultOptions\<lparr>pathomit := 1\<rparr>) = 1"
    "viewbox (defaultOptions\<lparr>pathomit := 1\<rparr>) = False"
    "desc (defaultOptions\<lparr>pathomit := 1\<rparr>) = False"
    by (simp_all add: defaultOptions_def)
  show ?thesis
    by (simp add: generateSvg_def tracePaths_dot tracePaths_dots pathToSvg_single nc fl_small
        jsRound_def del: One_nat_def)
qed

theorem single_pixel_region_dropped_witness:
  "getPixel \<lparr>width = 3, height = 1, array = [1, 0, 1], color = \<lparr>r = 255, g = 0, b = 0, a = 255\<rparr>\<rparr> 0 0
   \<and> \<not> getPixel \<lparr>width = 3, height = 1, array = [1, 0, 1], color = \<lparr>r = 255, g = 0, b = 0, a = 255\<rparr>\<rparr> (- 1) 0
   \<and> \<not> getPixel \<lparr>width = 3, height = 1, array = [1, 0, 1], color = \<lparr>r = 255, g = 0, b = 0, a = 255\<rparr>\<rparr> 1 0
   \<and> \<not> getPixel \<lparr>width = 3, height = 1, array = [1, 0, 1], color = \<lparr>r = 255, g = 0, b = 0, a = 255\<rparr>\<rparr> 0 (- 1)
   \<and> \<not> getPixel \<lparr>width = 3, height = 1, array = [1, 0, 1], color = \<lparr>r = 255, g = 0, b = 0, a = 255\<rparr>\<rparr> 0 1
   \<and> tracePaths \<lparr>width = 3, height = 1, array = [1, 0, 1], color = \<lparr>r = 255, g = 0, b = 0, a = 255\<rparr>\<rparr>
        (defaultOptions\<lparr>pathomit := 1\<rparr>) = [[(0, 0)], [(2, 0)]]
   \<and> [(0, 0)] \<in> set (tracePaths
        \<lparr>width = 3, height = 1, array = [1, 0, 1], color = \<lparr>r = 255, g = 0, b = 0, a = 255\<rparr>\<rparr>
        (defaultOptions\<lparr>pathomit := 1\<rparr>))
   \<and> pathToSvg [(0, 0)] (defaultOptions\<lparr>pathomit := 1\<rparr>) = Inr []
   \<and> simplifyPath [(0, 0)] (ltres (defaultOptions\<lparr>pathomit := 1\<rparr>)) = Some [(0, 0)]
   \<and> layerElements \<lparr>width = 3, height = 1, array = [1, 0, 1], color = \<lparr>r = 255, g = 0, b = 0, a = 255\<rparr>\<rparr>
        (defaultOptions\<lparr>pathomit := 1\<rparr>)
        (tracePaths \<lparr>width = 3, height = 1, array = [1, 0, 1], color = \<lparr>r = 255, g = 0, b = 0, a = 255\<rparr>\<rparr>
           (defaultOptions\<lparr>pathomit := 1\<rparr>))
      = layerElements \<lparr>width = 3, height = 1, array = [1, 0, 1], color = \<lparr>r = 255, g = 0, b = 0, a = 255\<rparr>\<rparr>
        (defaultOptions\<lparr>pathomit := 1\<rparr>) [[(2, 0)]]
   \<and> generateSvg
        [\<lparr>width = 3, height = 1, array = [0, 1, 0], color = \<lparr>r = 0, g = 0, b = 255, a = 255\<rparr>\<rparr>,
         \<lparr>width = 3, height = 1, array = [1, 0, 1], color = \<lparr>r = 255, g = 0, b = 0, a = 255\<rparr>\<rparr>]
        3 1 (defaultOptions\<lparr>pathomit := 1\<rparr>)
      = Inr \<lparr>svgWidth = 3, svgHeight = 1, svgViewBox = False, svgDesc = False, svgPaths = []\<rparr>
   \<and> joinElements
        (allElements
           [\<lparr>width = 3, height = 1, array = [0, 1, 0], color = \<lparr>r = 0, g = 0, b = 255, a = 255\<rparr>\<rparr>]
           (defaultOptions\<lparr>pathomit := 1\<rparr>))
        (joinElements
           (layerElements
              \<lparr>width = 3, height = 1, array = [1, 0, 1], color = \<lparr>r = 255, g = 0, b = 0, a = 255\<rparr>\<rparr>
              (defaultOptions\<lparr>pathomit := 1\<rparr>) [[(2, 0)]])
           (allElements [] (defaultOptions\<lparr>pathomit := 1\<rparr>)))
      = Inr []"
proof -
  define red where
    "red = \<lparr>width = 3, height = 1, array = [1, 0, 1], color = \<lparr>r = 255, g = 0, b = 0, a = 255\<rparr>\<rparr>"
  define blue where
    "blue = \<lparr>width = 3, height = 1, array = [0, 1, 0], color = \<lparr>r = 0, g = 0, b = 255, a = 255\<rparr>\<rparr>"
  define opts where "opts = defaultOptions\<lparr>pathomit := 1\<rparr>"
  define doc where
    "doc = \<lparr>svgWidth = 3, svgHeight = 1, svgViewBox = False, svgDesc = False,
            svgPaths = ([] :: (rgba \<times> string) list)\<rparr>"
  have h: "getPixel red 0 0 \<and> \<not> getPixel red (0 - 1) 0 \<and> \<not> getPixel red (0 + 1) 0
     \<and> \<not> getPixel red 0 (0 - 1) \<and> \<not> getPixel red 0 (0 + 1)"
    by (simp add: getPixel_def red_def)
  have tp: "tracePaths red opts = [[(0, 0)], [(2, 0)]]"
    unfolding red_def opts_def by (rule tracePaths_dots)
  have mem: "[(0, 0)] \<in> set (tracePaths red opts)" "(0, 0) \<in> set [(0 :: int, 0 :: int)]"
    by (simp_all add: tp)
  have sp: "simplifyPath [(0, 0)] (ltres opts) = Some [(0, 0)]" "length [(0 :: int, 0 :: int)] < 2"
    by (simp_all add: simplifyPath.simps)
  have kept: "filter (\<lambda>path. (0, 0) \<notin> set path) (tracePaths red opts) = [[(2, 0)]]"
    by (simp add: tp)
  have gen: "generateSvg ([blue] @ red # []) 3 1 opts = Inr doc"
    unfolding red_def blue_def opts_def doc_def using generateSvg_dots by simp
  note t = single_pixel_region_dropped[OF h, of "[]" opts]
  from t have c1: "pathToSvg [(0, 0)] opts = Inr []"
    by blast
  from t sp have c2: "pathToSvg [(0, 0)] opts = Inr []"
    by blast
  from t mem have c3: "[(0, 0)] = [(0 :: int, 0 :: int)] \<and> pathToSvg [(0, 0)] opts = Inr []"
    by blast
  from t have c4: "layerElements red opts (tracePaths red opts)
      = layerElements red opts (filter (\<lambda>path. (0, 0) \<notin> set path) (tracePaths red opts))"
    by blast
  from t gen have c5: "joinElements (allElements [blue] opts)
      (joinElements
         (layerElements red opts (filter (\<lambda>path. (0, 0) \<notin> set path) (tracePaths red opts)))
         (allElements [] opts))
      = Inr (svgPaths doc)"
    by blast
  have gen': "generateSvg [blue, red] 3 1 opts = Inr doc"
    using gen by simp
  have "\<not> getPixel red (- 1) 0" "\<not> getPixel red 1 0" "\<not> getPixel red 0 (- 1)"
    "\<not> getPixel red 0 1"
    using h by simp_all
  with h tp mem(1) c1 sp(1) c4 c5 gen' show ?thesis
    unfolding kept unfolding red_def blue_def opts_def doc_def by simp
qed

section \<open>Properties of the path simplifiers\<close>

lemma farthestStep_eq:
  "farthestStep points i s
     = (if perpendicularDistance (points ! i) (points ! 0) (points ! (length points - 1)) > fst s
        then (perpendicularDistance (points ! i) (points ! 0) (points ! (length points - 1)), i)
        else s)"
  by (cases s) (simp add: farthestStep_def Let_def)

lemma farthest_fold_mono: "fst s \<le> fst (fold (farthestStep points) js s)"
proof (induction js arbitrary: s)
  case Nil
  show ?case by simp
next
  case (Cons j js)
  have "fst s \<le> fst (farthestStep points j s)"
    by (simp add: farthestStep_eq)
  also have "\<dots> \<le> fst (fold (farthestStep points) js (farthestStep points j s))"
    by (rule Cons.IH)
  finally show ?case by simp
qed

lemma farthest_fold_keep:
  "fst (fold (farthestStep points) js s) = fst s \<Longrightarrow> fold (farthestStep points) js s = s"
proof (induction js arbitrary: s)
  case Nil
  show ?case by simp
next
  case (Cons j js)
  let ?s' = "farthestStep points j s"
  have a1: "fst s \<le> fst ?s'" by (simp add: farthestStep_eq)
  have a2: "fst ?s' \<le> fst (fold (farthestStep points) js ?s')" by (rule farthest_fold_mono)
  from Cons.prems have e: "fst (fold (farthestStep points) js ?s') = fst s" by simp
  with a1 a2 have e1: "fst ?s' = fst s"
    and e2: "fst (fold (farthestStep points) js ?s') = fst ?s'"
    by simp_all
  from e1 have "?s' = s" by (auto simp: farthestStep_eq split: if_splits)
  with Cons.IH[OF e2] show ?case by simp
qed

lemma farthest_fold_index:
  "fold (farthestStep points) js st = (m, idx) \<Longrightarrow> fst st < m \<Longrightarrow> idx \<in> set js"
proof (induction js arbitrary: st)
  case Nil
  then show ?case by simp
next
  case (Cons j js)
  let ?st' = "farthestStep points j st"
  have f: "fold (farthestStep points) js ?st' = (m, idx)"
    using Cons.prems(1) by simp
  show ?case
  proof (cases "fst ?st' < m")
    case True
    from Cons.IH[OF f True] show ?thesis by simp
  next
    case False
    have "fst ?st' \<le> m"
      using farthest_fold_mono[of ?st' points js] f by simp
    with False have eq: "fst ?st' = m" by simp
    with f have "fst (fold (farthestStep points) js ?st') = fst ?st'" by simp
    from farthest_fold_keep[OF this] f have "?st' = (m, idx)" by simp
    with Cons.prems(2) show ?thesis
      by (auto simp: farthestStep_eq split: if_splits)
  qed
qed

lemma farthest_index:
  "farthest points = (m, idx) \<Longrightarrow> 0 < m \<Longrightarrow> 1 \<le> idx \<and> idx < length points - 1"
  using farthest_fold_index[of points "[1..<length points - 1]" "(0, 0)" m idx]
  by (auto simp: farthest_def)

lemma farthest_zero: "fst (farthest points) = 0 \<Longrightarrow> farthest points = (0, 0)"
  using farthest_fold_keep[of points "[1..<length points - 1]" "(0, 0)"]
  by (simp add: farthest_def)

text \<open>With a tolerance that is not negative, \<^verbatim>\<open>simplifyPath\<close> returns.\<close>

lemma simplifyPath_nonneg:
  "0 \<le> tolerance \<Longrightarrow>
     \<exists>s. simplifyPath points tolerance = Some s
       \<and> length s \<le> length points
       \<and> (length points \<le> 2 \<longrightarrow> s = points)
       \<and> (2 \<le> length points \<longrightarrow> 2 \<le> length s \<and> hd s = hd points \<and> last s = last points)"
proof (induction "length points" arbitrary: points rule: less_induct)
  case less
  show ?case
  proof (cases "length points \<le> 2")
    case True
    then show ?thesis by (subst simplifyPath.simps) simp
  next
    case False
    then have len: "2 < length points" by simp
    obtain maxDist maxIdx where far: "farthest points = (maxDist, maxIdx)"
      by (cases "farthest points")
    have ne: "points \<noteq> []" using len by auto
    show ?thesis
    proof (cases "maxDist > tolerance")
      case False
      have "simplifyPath points tolerance = Some [points ! 0, points ! (length points - 1)]"
        using len far False by (subst simplifyPath.simps) simp
      moreover have "hd points = points ! 0" "last points = points ! (length points - 1)"
        using ne by (simp_all add: hd_conv_nth last_conv_nth)
      ultimately show ?thesis using len by simp
    next
      case True
      with less.prems have "0 < maxDist" by simp
      from farthest_index[OF far this] have idx: "1 \<le> maxIdx" "maxIdx < length points - 1"
        by simp_all
      let ?l = "take (maxIdx + 1) points"
      let ?r = "drop maxIdx points"
      have ll: "length ?l = maxIdx + 1" "length ?l < length points" "2 \<le> length ?l"
        using idx by simp_all
      have lr: "length ?r = length points - maxIdx" "length ?r < length points" "2 \<le> length ?r"
        using idx by simp_all
      from less.hyps[OF ll(2) less.prems] ll(3) obtain sl where
        sl: "simplifyPath ?l tolerance = Some sl" "length sl \<le> length ?l"
          "2 \<le> length sl" "hd sl = hd ?l"
        by auto
      from less.hyps[OF lr(2) less.prems] lr(3) obtain sr where
        sr: "simplifyPath ?r tolerance = Some sr" "length sr \<le> length ?r"
          "2 \<le> length sr" "last sr = last ?r"
        by auto
      have res: "simplifyPath points tolerance = Some (butlast sl @ sr)"
        using len far True sl(1) sr(1) by (subst simplifyPath.simps) simp
      have bl: "butlast sl \<noteq> []" using sl(3) by (cases sl; cases "tl sl") auto
      have "length (butlast sl @ sr) \<le> length points"
        using sl(2) sr(2) ll(1) lr(1) idx by simp
      moreover have "2 \<le> length (butlast sl @ sr)" using sr(3) by simp
      moreover have "hd (butlast sl @ sr) = hd points"
      proof -
        have "hd (butlast sl @ sr) = hd (butlast sl)" using bl by simp
        also have "\<dots> = hd sl" using bl by (cases sl) auto
        also have "\<dots> = hd points" using sl(4) by simp
        finally show ?thesis .
      qed
      moreover have "last (butlast sl @ sr) = last points"
      proof -
        have "sr \<noteq> []" using sr(3) by auto
        then have "last (butlast sl @ sr) = last sr" by simp
        also have "\<dots> = last points" using sr(4) idx by simp
        finally show ?thesis .
      qed
      ultimately show ?thesis using res len by simp
    qed
  qed
qed

text \<open>
  With a negative tolerance and no interior point off the line through the end
  points, the second recursive call receives the whole array again.
\<close>

lemma simplifyPath_negative_None:
  assumes "tolerance < 0" "2 < length points" "fst (farthest points) = 0"
  shows "simplifyPath points tolerance = None"
proof (rule ccontr)
  assume "simplifyPath points tolerance \<noteq> None"
  then obtain s where s: "simplifyPath points tolerance = Some s" by auto
  have far: "farthest points = (0, 0)" by (rule farthest_zero[OF assms(3)])
  have "\<not> (points = points \<and> tolerance = tolerance)"
    apply (rule simplifyPath.raw_induct
        [where P = "\<lambda>ps tol res. \<not> (ps = points \<and> tol = tolerance)", OF _ s])
    subgoal premises prems for f ps tol res
    proof
      assume eq: "ps = points \<and> tol = tolerance"
      with prems(2) assms(1,2) far obtain right where "f points tolerance = Some right"
        by (auto simp: bind_eq_Some_conv split: if_splits)
      from prems(1)[OF this] show False by simp
    qed
    done
  then show False by simp
qed

lemma farthest_collinear: "farthest [(0, 0), (1, 0), (2, 0)] = (0, 0)"
  by (simp add: farthest_def farthestStep_def perpendicularDistance_def Let_def fl_small)

declare simplifyDPStep.simps [simp del]

lemma simplifyDPStep_extends:
  "\<exists>extra. simplifyDPStep points first last' sqTolerance simplified = simplified @ extra
      \<and> length extra \<le> last' - first - 1"
proof (induction points first last' sqTolerance simplified rule: simplifyDPStep.induct)
  case (1 points first last' sqTolerance simplified)
  obtain maxSqDist index where sc: "dpScan points first last' sqTolerance = (maxSqDist, index)"
    by (cases "dpScan points first last' sqTolerance")
  show ?case
  proof (cases "maxSqDist > sqTolerance")
    case False
    then show ?thesis
      using sc by (subst simplifyDPStep.simps) simp
  next
    case True
    from dpScan_index[OF sc True] have idx: "first < index" "index < last'" by simp_all
    define s1 where "s1 = (if index - first > 1
                    then simplifyDPStep points first index sqTolerance simplified
                    else simplified)"
    have "\<exists>e1. s1 = simplified @ e1 \<and> length e1 \<le> index - first - 1"
    proof (cases "index - first > 1")
      case True
      then show ?thesis
        using "1.IH"(1)[OF sc[symmetric] \<open>maxSqDist > sqTolerance\<close> True] by (simp add: s1_def)
    next
      case False
      then show ?thesis by (simp add: s1_def)
    qed
    then obtain e1 where e1: "s1 = simplified @ e1" "length e1 \<le> index - first - 1" by auto
    define s2 where "s2 = s1 @ [points ! index]"
    define res where "res = (if last' - index > 1
                     then simplifyDPStep points index last' sqTolerance s2 else s2)"
    have "\<exists>e2. res = s2 @ e2 \<and> length e2 \<le> last' - index - 1"
    proof (cases "last' - index > 1")
      case True
      then show ?thesis
        using "1.IH"(2)[OF sc[symmetric] \<open>maxSqDist > sqTolerance\<close> s1_def s2_def True]
        by (simp add: res_def)
    next
      case False
      then show ?thesis by (simp add: res_def)
    qed
    then obtain e2 where e2: "res = s2 @ e2" "length e2 \<le> last' - index - 1" by auto
    have "simplifyDPStep points first last' sqTolerance simplified = res"
      using sc True by (subst simplifyDPStep.simps) (simp add: res_def s2_def s1_def Let_def)
    moreover have "res = simplified @ (e1 @ [points ! index] @ e2)"
      by (simp add: e2(1) s2_def e1(1))
    moreover have "length (e1 @ [points ! index] @ e2) \<le> last' - first - 1"
      using e1(2) e2(2) idx by simp
    ultimately show ?thesis by metis
  qed
qed

text \<open>
  The simplifier of the Node library returns for every tolerance, with no more
  points than its input and the same first and last point.
\<close>

lemma simplifyPathDP_preserves:
  "length (simplifyPathDP path tolerance) \<le> length path
   \<and> (length path \<le> 2 \<longrightarrow> simplifyPathDP path tolerance = path)
   \<and> (path \<noteq> [] \<longrightarrow> hd (simplifyPathDP path tolerance) = hd path
                     \<and> last (simplifyPathDP path tolerance) = last path)"
proof (cases "length path \<le> 2")
  case True
  then show ?thesis by (simp add: simplifyPathDP_def)
next
  case False
  then have ne: "path \<noteq> []" by auto
  obtain extra where ex:
    "simplifyDPStep path 0 (length path - 1) (fl (tolerance * tolerance)) [path ! 0]
       = [path ! 0] @ extra"
    "length extra \<le> length path - 1 - 0 - 1"
    using simplifyDPStep_extends[of path 0 "length path - 1" "fl (tolerance * tolerance)"
        "[path ! 0]"]
    by auto
  have res: "simplifyPathDP path tolerance = [path ! 0] @ extra @ [path ! (length path - 1)]"
    using False ex(1) by (simp add: simplifyPathDP_def Let_def)
  have "length (simplifyPathDP path tolerance) \<le> length path"
    using ex(2) False by (simp add: res)
  moreover have "hd (simplifyPathDP path tolerance) = hd path"
    using ne by (simp add: res hd_conv_nth)
  moreover have "last (simplifyPathDP path tolerance) = last path"
    using ne by (simp add: res last_conv_nth)
  ultimately show ?thesis using False by simp
qed

section \<open>Properties of the main tracing function\<close>

lemma pathToSvg_returns:
  "0 \<le> ltres opts \<Longrightarrow> 0 \<le> roundcoords opts \<Longrightarrow> roundcoords opts \<le> 100
     \<Longrightarrow> \<exists>dstr. pathToSvg path opts = Inr dstr"
  using simplifyPath_nonneg[of "ltres opts" path]
  by (auto simp: pathToSvg_def Let_def)

lemma layerElements_returns:
  "0 \<le> ltres opts \<Longrightarrow> 0 \<le> roundcoords opts \<Longrightarrow> roundcoords opts \<le> 100
     \<Longrightarrow> \<exists>es. layerElements lay opts paths = Inr es"
proof (induction paths)
  case Nil
  show ?case by simp
next
  case (Cons path paths)
  from pathToSvg_returns[OF Cons.prems, of path] obtain dstr where "pathToSvg path opts = Inr dstr"
    by auto
  moreover from Cons.IH[OF Cons.prems] obtain es where "layerElements lay opts paths = Inr es"
    by auto
  ultimately show ?case by simp
qed

lemma allElements_returns:
  "0 \<le> ltres opts \<Longrightarrow> 0 \<le> roundcoords opts \<Longrightarrow> roundcoords opts \<le> 100
     \<Longrightarrow> \<exists>es. allElements layers opts = Inr es"
proof (induction layers)
  case Nil
  show ?case by simp
next
  case (Cons lay layers)
  from layerElements_returns[OF Cons.prems, of lay "tracePaths lay opts"]
  obtain es where "layerElements lay opts (tracePaths lay opts) = Inr es" by auto
  moreover from Cons.IH[OF Cons.prems] obtain es' where "allElements layers opts = Inr es'"
    by auto
  ultimately show ?case by simp
qed

lemma preprocess_dims:
  "width (preprocess img opts) = width img \<and> height (preprocess img opts) = height img"
  by (simp add: preprocess_def blur_def toGrayscale_def toMonochrome_def Let_def)

lemma effectiveOptions_fields:
  "ltres (effectiveOptions opts) = ltres opts"
  "roundcoords (effectiveOptions opts) = roundcoords opts"
  "scale (effectiveOptions opts) = scale opts"
  "viewbox (effectiveOptions opts) = viewbox opts"
  "desc (effectiveOptions opts) = desc opts"
  by (simp_all add: effectiveOptions_def)

lemma trace_returns:
  assumes "0 \<le> ltres opts" "0 \<le> roundcoords opts" "roundcoords opts \<le> 100"
  shows "\<exists>es. snd (trace img opts)
            = Inr \<lparr>svgWidth = jsRound (fl (real (width img) * scale opts)),
                   svgHeight = jsRound (fl (real (height img) * scale opts)),
                   svgViewBox = viewbox opts, svgDesc = desc opts, svgPaths = es\<rparr>"
proof -
  define img' where "img' = preprocess img opts"
  define opts' where "opts' = effectiveOptions opts"
  define palette where "palette = quantize (data img') (numberofcolors opts')"
  define layers where "layers = layerSeparation (createIndexedImage img' palette) palette"
  have "0 \<le> ltres opts'" "0 \<le> roundcoords opts'" "roundcoords opts' \<le> 100"
    using assms by (simp_all add: opts'_def effectiveOptions_fields)
  from allElements_returns[OF this, of layers] obtain es where "allElements layers opts' = Inr es"
    by auto
  then have "generateSvg layers (width img') (height img') opts'
      = Inr \<lparr>svgWidth = jsRound (fl (real (width img) * scale opts)),
             svgHeight = jsRound (fl (real (height img) * scale opts)),
             svgViewBox = viewbox opts, svgDesc = desc opts, svgPaths = es\<rparr>"
    by (simp add: generateSvg_def img'_def opts'_def preprocess_dims effectiveOptions_fields)
  then show ?thesis
    unfolding trace_def Let_def layers_def palette_def opts'_def img'_def by auto
qed

text \<open>
  A read beyond the buffer is \<^verbatim>\<open>undefined\<close>. When the alpha byte of a pixel is missing,
  \<^verbatim>\<open>undefined < 128\<close> is false and the pixel is given the index of the closest colour;
  when its blue byte is missing too, every distance is \<^verbatim>\<open>NaN\<close>, no comparison holds
  and the index stays 0.
\<close>

lemma closest_NaN_fold:
  "fold (closestStep palette rv gv NaN) js st = st"
proof (induction js arbitrary: st)
  case Nil
  show ?case by simp
next
  case (Cons j js)
  have "closestStep palette rv gv NaN j st = st"
    by (cases st) (simp add: closestStep_def Let_def)
  with Cons.IH show ?case by simp
qed

lemma closest_NaN: "closest palette rv gv NaN = 0"
  by (simp add: closest_def closest_NaN_fold)

lemma pixelIndex_alpha_missing:
  "length dat \<le> i * 4 + 3 \<Longrightarrow>
     pixelIndex dat palette i
       = int (closest palette (toNumber (rd dat (i * 4))) (toNumber (rd dat (i * 4 + 1)))
                (toNumber (rd dat (i * 4 + 2))))"
  by (simp add: pixelIndex_def Let_def rd_def)

lemma pixelIndex_blue_missing:
  "length dat \<le> i * 4 + 2 \<Longrightarrow> pixelIndex dat palette i = 0"
  by (simp add: pixelIndex_def Let_def rd_def closest_NaN)

lemma quantize_4x1:
  "quantize [0, 0, 255, 255, 255, 0, 0, 255, 255, 0, 0] 16
     = [\<lparr>r = 0, g = 0, b = 255, a = 255\<rparr>, \<lparr>r = 255, g = 0, b = 0, a = 255\<rparr>]"
  by code_simp

lemma index_4x1:
  "createIndexedImage \<lparr>width = 4, height = 1, data = [0, 0, 255, 255, 255, 0, 0, 255, 255, 0, 0]\<rparr>
     [\<lparr>r = 0, g = 0, b = 255, a = 255\<rparr>, \<lparr>r = 255, g = 0, b = 0, a = 255\<rparr>]
   = \<lparr>width = 4, height = 1, array = [0, 1, 1, 0]\<rparr>"
  by code_simp

lemma layers_4x1:
  "layerSeparation \<lparr>width = 4, height = 1, array = [0, 1, 1, 0]\<rparr>
     [\<lparr>r = 0, g = 0, b = 255, a = 255\<rparr>, \<lparr>r = 255, g = 0, b = 0, a = 255\<rparr>]
   = [\<lparr>width = 4, height = 1, array = [1, 0, 0, 1], color = \<lparr>r = 0, g = 0, b = 255, a = 255\<rparr>\<rparr>,
      \<lparr>width = 4, height = 1, array = [0, 1, 1, 0], color = \<lparr>r = 255, g = 0, b = 0, a = 255\<rparr>\<rparr>]"
  by code_simp

lemma tracePaths_4x1_blue:
  "tracePaths \<lparr>width = 4, height = 1, array = [1, 0, 0, 1], color = \<lparr>r = 0, g = 0, b = 255, a = 255\<rparr>\<rparr>
     (defaultOptions\<lparr>pathomit := 2\<rparr>) = []"
  by code_simp

lemma tracePaths_4x1_red:
  "tracePaths \<lparr>width = 4, height = 1, array = [0, 1, 1, 0], color = \<lparr>r = 255, g = 0, b = 0, a = 255\<rparr>\<rparr>
     (defaultOptions\<lparr>pathomit := 2\<rparr>) = [[(1, 0), (2, 0)]]"
  by code_simp

lemma pathToSvg_4x1:
  "pathToSvg [(1, 0), (2, 0)] (defaultOptions\<lparr>pathomit := 2\<rparr>) = Inr ''M 1.0 0.0 L 2.0 0.0 Z''"
  by (simp add: pathToSvg_two_points defaultOptions_def toFixed_def fl_small)

lemma trace_4x1:
  "snd (trace \<lparr>width = 4, height = 1, data = [0, 0, 255, 255, 255, 0, 0, 255, 255, 0, 0]\<rparr>
         (defaultOptions\<lparr>pathomit := 2\<rparr>))
     = Inr \<lparr>svgWidth = 4, svgHeight = 1, svgViewBox = False, svgDesc = False,
            svgPaths = [(\<lparr>r = 255, g = 0, b = 0, a = 255\<rparr>, ''M 1.0 0.0 L 2.0 0.0 Z'')]\<rparr>"
proof -
  define opts where "opts = defaultOptions\<lparr>pathomit := 2\<rparr>"
  define img where
    "img = \<lparr>width = 4, height = 1, data = [0, 0, 255, 255, 255, 0, 0, 255, 255, 0, 0 :: byte]\<rparr>"
  have pre: "preprocess img opts = img"
    by (simp add: preprocess_def defaultOptions_def opts_def)
  have eff: "effectiveOptions opts = opts"
    by (simp add: effectiveOptions_def defaultOptions_def opts_def)
  have nc: "numberofcolors opts = 16" "scale opts = 1" "viewbox opts = False" "desc opts = False"
    by (simp_all add: defaultOptions_def opts_def)
  have im: "width img = 4" "height img = 1"
    "data img = [0, 0, 255, 255, 255, 0, 0, 255, 255, 0, 0]"
    by (simp_all add: img_def)
  have ix: "createIndexedImage img
        [\<lparr>r = 0, g = 0, b = 255, a = 255\<rparr>, \<lparr>r = 255, g = 0, b = 0, a = 255\<rparr>]
      = \<lparr>width = 4, height = 1, array = [0, 1, 1, 0]\<rparr>"
    unfolding img_def by (rule index_4x1)
  have tb: "tracePaths \<lparr>width = 4, height = 1, array = [1, 0, 0, 1],
                color = \<lparr>r = 0, g = 0, b = 255, a = 255\<rparr>\<rparr> opts = []"
    unfolding opts_def by (rule tracePaths_4x1_blue)
  have tr: "tracePaths \<lparr>width = 4, height = 1, array = [0, 1, 1, 0],
                color = \<lparr>r = 255, g = 0, b = 0, a = 255\<rparr>\<rparr> opts = [[(1, 0), (2, 0)]]"
    unfolding opts_def by (rule tracePaths_4x1_red)
  have d: "pathToSvg [(1, 0), (2, 0)] opts = Inr ''M 1.0 0.0 L 2.0 0.0 Z''"
    unfolding opts_def by (rule pathToSvg_4x1)
  have "snd (trace img opts)
     = Inr \<lparr>svgWidth = 4, svgHeight = 1, svgViewBox = False, svgDesc = False,
            svgPaths = [(\<lparr>r = 255, g = 0, b = 0, a = 255\<rparr>, ''M 1.0 0.0 L 2.0 0.0 Z'')]\<rparr>"
    unfolding trace_def Let_def pre eff
    by (simp add: im nc quantize_4x1 ix layers_4x1 generateSvg_def tb tr d fl_small jsRound_def
        del: One_nat_def)
  then show ?thesis unfolding opts_def img_def .
qed

text \<open>
  Claim C1 says that a buffer whose length is not \<^verbatim>\<open>width * height * 4\<close> makes
  \<^verbatim>\<open>trace\<close> fail with a dimension-mismatch error. Nothing in \<^verbatim>\<open>trace\<close> or in the
  functions it calls compares the length of the buffer with the dimensions or throws.
  For the image of 4 by 1 pixels with a buffer of 11 bytes (a blue pixel, a red pixel,
  the three colour bytes of a red pixel) and \<^verbatim>\<open>pathomit\<close> 2, \<^verbatim>\<open>trace\<close> returns a document
  whose one path is the red region of the second and third pixel; the third pixel has
  no alpha byte in the buffer.
\<close>

theorem no_dimension_check_counterexample:
  "length (data \<lparr>width = 4, height = 1, data = [0, 0, 255, 255, 255, 0, 0, 255, 255, 0, 0]\<rparr>)
     \<noteq> width \<lparr>width = 4, height = 1, data = [0, 0, 255, 255, 255, 0, 0, 255, 255, 0, 0]\<rparr>
       * height \<lparr>width = 4, height = 1, data = [0, 0, 255, 255, 255, 0, 0, 255, 255, 0, 0]\<rparr> * 4
   \<and> snd (trace \<lparr>width = 4, height = 1, data = [0, 0, 255, 255, 255, 0, 0, 255, 255, 0, 0]\<rparr>
         (defaultOptions\<lparr>pathomit := 2\<rparr>))
     = Inr \<lparr>svgWidth = 4, svgHeight = 1, svgViewBox = False, svgDesc = False,
            svgPaths = [(\<lparr>r = 255, g = 0, b = 0, a = 255\<rparr>, ''M 1.0 0.0 L 2.0 0.0 Z'')]\<rparr>"
  using trace_4x1 by simp

text \<open>
  Claim C1 as the code has it. For a buffer whose length is not
  \<^verbatim>\<open>width * height * 4\<close>, \<^verbatim>\<open>trace\<close> raises no error about the dimensions: when the
  tolerance \<^verbatim>\<open>ltres\<close> is not negative and \<^verbatim>\<open>roundcoords\<close> is between 0 and 100, it returns
  a document whose width and height are \<^verbatim>\<open>Math.round(width * scale)\<close> and
  \<^verbatim>\<open>Math.round(height * scale)\<close>. In the indexer, a pixel whose alpha byte lies beyond
  the buffer is not transparent: it gets the index of the palette colour closest to
  its colour bytes, and the index 0 when its blue byte lies beyond the buffer too.
\<close>

theorem no_dimension_check:
  "length (data img) \<noteq> width img * height img * 4 \<Longrightarrow> 0 \<le> ltres opts
     \<Longrightarrow> 0 \<le> roundcoords opts \<Longrightarrow> roundcoords opts \<le> 100
     \<Longrightarrow> (\<exists>es. snd (trace img opts)
            = Inr \<lparr>svgWidth = jsRound (fl (real (width img) * scale opts)),
                   svgHeight = jsRound (fl (real (height img) * scale opts)),
                   svgViewBox = viewbox opts, svgDesc = desc opts, svgPaths = es\<rparr>)
       \<and> (\<forall>palette i. length (data img) \<le> i * 4 + 3 \<longrightarrow>
              pixelIndex (data img) palette i
                = int (closest palette (toNumber (rd (data img) (i * 4)))
                         (toNumber (rd (data img) (i * 4 + 1)))
                         (toNumber (rd (data img) (i * 4 + 2)))))
       \<and> (\<forall>palette i. length (data img) \<le> i * 4 + 2 \<longrightarrow>
              pixelIndex (data img) palette i = 0)"
  using trace_returns[of opts img] pixelIndex_alpha_missing[of "data img"]
    pixelIndex_blue_missing[of "data img"]
  by blast

theorem no_dimension_check_witness:
  "length (data \<lparr>width = 4, height = 1, data = [0, 0, 255, 255, 255, 0, 0, 255, 255, 0, 0]\<rparr>)
     \<noteq> width \<lparr>width = 4, height = 1, data = [0, 0, 255, 255, 255, 0, 0, 255, 255, 0, 0]\<rparr>
       * height \<lparr>width = 4, height = 1, data = [0, 0, 255, 255, 255, 0, 0, 255, 255, 0, 0]\<rparr> * 4
   \<and> 0 \<le> ltres (defaultOptions\<lparr>pathomit := 2\<rparr>)
   \<and> 0 \<le> roundcoords (defaultOptions\<lparr>pathomit := 2\<rparr>)
   \<and> roundcoords (defaultOptions\<lparr>pathomit := 2\<rparr>) \<le> 100
   \<and> length [0, 0, 255, 255, 255, 0, 0, 255, 255, 0, 0 :: byte] \<le> 2 * 4 + 3
   \<and> pixelIndex [0, 0, 255, 255, 255, 0, 0, 255, 255, 0, 0]
        [\<lparr>r = 0, g = 0, b = 255, a = 255\<rparr>, \<lparr>r = 255, g = 0, b = 0, a = 255\<rparr>] 2 = 1
   \<and> length [0, 0, 255, 255, 255, 0, 0, 255, 255, 0, 0 :: byte] \<le> 3 * 4 + 2
   \<and> pixelIndex [0, 0, 255, 255, 255, 0, 0, 255, 255, 0, 0]
        [\<lparr>r = 0, g = 0, b = 255, a = 255\<rparr>, \<lparr>r = 255, g = 0, b = 0, a = 255\<rparr>] 3 = 0
   \<and> (\<exists>es. snd (trace \<lparr>width = 4, height = 1,
                          data = [0, 0, 255, 255, 255, 0, 0, 255, 255, 0, 0]\<rparr>
                    (defaultOptions\<lparr>pathomit := 2\<rparr>))
            = Inr \<lparr>svgWidth = 4, svgHeight = 1, svgViewBox = False, svgDesc = False,
                   svgPaths = es\<rparr>)"
proof -
  define img where
    "img = \<lparr>width = 4, height = 1, data = [0, 0, 255, 255, 255, 0, 0, 255, 255, 0, 0 :: byte]\<rparr>"
  define opts where "opts = defaultOptions\<lparr>pathomit := 2\<rparr>"
  define pal where
    "pal = [\<lparr>r = 0, g = 0, b = 255, a = 255\<rparr>, \<lparr>r = 255, g = 0, b = 0, a = 255\<rparr>]"
  have dt: "data img = [0, 0, 255, 255, 255, 0, 0, 255, 255, 0, 0]"
    by (simp add: img_def)
  have h1: "length (data img) \<noteq> width img * height img * 4"
    by (simp add: img_def)
  have h2: "0 \<le> ltres opts" and h3: "0 \<le> roundcoords opts" and h4: "roundcoords opts \<le> 100"
    by (simp_all add: defaultOptions_def opts_def)
  have h5: "length (data img) \<le> 2 * 4 + 3" and h6: "length (data img) \<le> 3 * 4 + 2"
    by (simp_all add: img_def)
  note t = no_dimension_check[OF h1 h2 h3 h4]
  from t obtain es where es: "snd (trace img opts)
      = Inr \<lparr>svgWidth = jsRound (fl (real (width img) * scale opts)),
             svgHeight = jsRound (fl (real (height img) * scale opts)),
             svgViewBox = viewbox opts, svgDesc = desc opts, svgPaths = es\<rparr>"
    by blast
  have sz: "jsRound (fl (real (width img) * scale opts)) = 4"
    "jsRound (fl (real (height img) * scale opts)) = 1"
    "viewbox opts = False" "desc opts = False"
    by (simp_all add: img_def opts_def defaultOptions_def fl_small jsRound_def)
  from t h5 have "pixelIndex (data img) pal 2
      = int (closest pal (toNumber (rd (data img) (2 * 4))) (toNumber (rd (data img) (2 * 4 + 1)))
               (toNumber (rd (data img) (2 * 4 + 2))))"
    by blast
  also have "\<dots> = 1"
    unfolding dt pal_def by code_simp
  finally have p2: "pixelIndex (data img) pal 2 = 1" .
  from t h6 have p3: "pixelIndex (data img) pal 3 = 0"
    by blast
  from es sz have "\<exists>es. snd (trace img opts)
      = Inr \<lparr>svgWidth = 4, svgHeight = 1, svgViewBox = False, svgDesc = False, svgPaths = es\<rparr>"
    by simp
  with h1 h2 h3 h4 h5 h6 p2 p3 show ?thesis
    unfolding img_def opts_def pal_def dims.simps imgd.simps by simp
qed

lemma quantize_5x1:
  "quantize [0, 0, 0, 255, 0, 0, 0, 255, 0, 0, 0, 255, 0, 0, 0, 255, 0, 0, 0, 255] 16
     = [\<lparr>r = 0, g = 0, b = 0, a = 255\<rparr>]"
proof -
  let ?A = "\<lparr>r = 0, g = 0, b = 0, a = 255\<rparr>"
  have px: "collectPixels [0, 0, 0, 255, 0, 0, 0, 255, 0, 0, 0, 255, 0, 0, 0, 255, 0, 0, 0, 255]
      = [?A, ?A, ?A, ?A, ?A]"
    by simp
  have sc: "fst (scan [[?A, ?A, ?A, ?A, ?A]]) = 0"
    by (simp add: scan_def scanStep_def rangeOf_def)
  show ?thesis
    by (simp add: quantize_def px medianCut_def medianCutLoop_zero[OF sc] average_def jsRound_def)
qed

lemma layers_5x1:
  "layerSeparation
     (createIndexedImage
        \<lparr>width = 5, height = 1,
         data = [0, 0, 0, 255, 0, 0, 0, 255, 0, 0, 0, 255, 0, 0, 0, 255, 0, 0, 0, 255]\<rparr>
        [\<lparr>r = 0, g = 0, b = 0, a = 255\<rparr>])
     [\<lparr>r = 0, g = 0, b = 0, a = 255\<rparr>]
   = [\<lparr>width = 5, height = 1, array = [1, 1, 1, 1, 1], color = \<lparr>r = 0, g = 0, b = 0, a = 255\<rparr>\<rparr>]"
  by code_simp

lemma tracePaths_5x1:
  "tracePaths \<lparr>width = 5, height = 1, array = [1, 1, 1, 1, 1], color = \<lparr>r = 0, g = 0, b = 0, a = 255\<rparr>\<rparr>
     (defaultOptions\<lparr>ltres := - 1\<rparr>)
   = [[(0, 0), (1, 0), (2, 0), (3, 0), (4, 0), (3, 0), (2, 0), (1, 0)]]"
  by code_simp

lemma farthest_5x1:
  "farthest [(0, 0), (1, 0), (2, 0), (3, 0), (4, 0), (3, 0), (2, 0), (1, 0)] = (0, 0)"
  by (simp add: farthest_def farthestStep_def perpendicularDistance_def Let_def fl_small
      upt_rec[of 1])

lemma trace_5x1_negative:
  "snd (trace \<lparr>width = 5, height = 1,
          data = [0, 0, 0, 255, 0, 0, 0, 255, 0, 0, 0, 255, 0, 0, 0, 255, 0, 0, 0, 255]\<rparr>
         (defaultOptions\<lparr>ltres := - 1\<rparr>)) = Inl NoReturn"
proof -
  define opts where "opts = defaultOptions\<lparr>ltres := - 1\<rparr>"
  define img where "img = \<lparr>width = 5, height = 1,
          data = [0, 0, 0, 255, 0, 0, 0, 255, 0, 0, 0, 255, 0, 0, 0, 255, 0, 0, 0, 255 :: byte]\<rparr>"
  have pre: "preprocess img opts = img"
    by (simp add: preprocess_def defaultOptions_def opts_def)
  have eff: "effectiveOptions opts = opts"
    by (simp add: effectiveOptions_def defaultOptions_def opts_def)
  have nc: "numberofcolors opts = 16" "ltres opts = - 1"
    by (simp_all add: defaultOptions_def opts_def)
  have im: "data img = [0, 0, 0, 255, 0, 0, 0, 255, 0, 0, 0, 255, 0, 0, 0, 255, 0, 0, 0, 255]"
    by (simp add: img_def)
  have ls: "layerSeparation (createIndexedImage img [\<lparr>r = 0, g = 0, b = 0, a = 255\<rparr>])
        [\<lparr>r = 0, g = 0, b = 0, a = 255\<rparr>]
      = [\<lparr>width = 5, height = 1, array = [1, 1, 1, 1, 1], color = \<lparr>r = 0, g = 0, b = 0, a = 255\<rparr>\<rparr>]"
    unfolding img_def by (rule layers_5x1)
  have tp: "tracePaths \<lparr>width = 5, height = 1, array = [1, 1, 1, 1, 1],
                color = \<lparr>r = 0, g = 0, b = 0, a = 255\<rparr>\<rparr> opts
      = [[(0, 0), (1, 0), (2, 0), (3, 0), (4, 0), (3, 0), (2, 0), (1, 0)]]"
    unfolding opts_def by (rule tracePaths_5x1)
  have sp: "simplifyPath [(0, 0), (1, 0), (2, 0), (3, 0), (4, 0), (3, 0), (2, 0), (1, 0)] (- 1) = None"
    by (rule simplifyPath_negative_None) (simp_all add: farthest_5x1)
  have d: "pathToSvg [(0, 0), (1, 0), (2, 0), (3, 0), (4, 0), (3, 0), (2, 0), (1, 0)] opts = Inl NoReturn"
    by (simp add: pathToSvg_def nc sp)
  have "snd (trace img opts) = Inl NoReturn"
    unfolding trace_def Let_def pre eff
    by (simp add: nc im quantize_5x1 ls generateSvg_def tp d del: One_nat_def)
  then show ?thesis unfolding opts_def img_def .
qed

text \<open>
  Claim C8 says that for every path and every tolerance the simplifier returns a path
  with no more points and the same end points. \<^verbatim>\<open>simplifyPath\<close> of \<^verbatim>\<open>imagetrace.js\<close>
  does so for every tolerance that is not negative (\<open>simplifyPath_nonneg\<close>), and the
  simplifier of the Node library for every tolerance (\<open>simplifyPathDP_preserves\<close>).
  With a negative tolerance the former does not return on a path whose interior
  points lie on the line through its end points: on the three points below, and
  inside \<^verbatim>\<open>trace\<close> on a uniform opaque image of 5 by 1 pixels.
\<close>

theorem simplifyPath_negative_tolerance:
  "simplifyPath [(0, 0), (1, 0), (2, 0)] (- 1) = None
   \<and> snd (trace \<lparr>width = 5, height = 1,
          data = [0, 0, 0, 255, 0, 0, 0, 255, 0, 0, 0, 255, 0, 0, 0, 255, 0, 0, 0, 255]\<rparr>
         (defaultOptions\<lparr>ltres := - 1\<rparr>)) = Inl NoReturn"
  using simplifyPath_negative_None[of "- 1" "[(0, 0), (1, 0), (2, 0)]"] trace_5x1_negative
  by (simp add: farthest_collinear)

section \<open>Properties of the blur\<close>

lemma length_store4: "length (store4 buf idx f) = length buf"
  by (simp add: store4_def)

lemma store4_nth_same: "idx < length buf \<Longrightarrow> store4 buf idx f ! idx = toUint8Clamp (f 0)"
  by (simp add: store4_def)

lemma store4_nth_below: "i < idx \<Longrightarrow> store4 buf idx f ! i = buf ! i"
  by (simp add: store4_def)

lemma length_horizontalPass: "length (horizontalPass dat w h radius kern buf) = length buf"
proof -
  have "length (fold (\<lambda>(py, px) out. store4 out ((py * w + px) * 4) (hSum dat w radius kern py px))
          yxs buf) = length buf" for yxs
    by (induction yxs arbitrary: buf) (auto simp: length_store4)
  then show ?thesis by (simp add: horizontalPass_def)
qed

lemma length_verticalPass: "length (verticalPass buf w h radius kern dat) = length dat"
proof -
  have "length (fold (\<lambda>(py, px) dat'. store4 dat' ((py * w + px) * 4) (vSum buf w h radius kern py px))
          yxs dat) = length dat" for yxs
    by (induction yxs arbitrary: dat) (auto simp: length_store4)
  then show ?thesis by (simp add: verticalPass_def)
qed

lemma length_blur: "length (data (blur img radius)) = length (data img)"
  by (simp add: blur_def Let_def length_verticalPass)

lemma roundHalfEven_cases: "roundHalfEven v = \<lfloor>v\<rfloor> \<or> roundHalfEven v = \<lfloor>v\<rfloor> + 1"
  by (simp add: roundHalfEven_def Let_def)

lemma toUint8Clamp_nonzero:
  assumes "1 \<le> v"
  shows "toUint8Clamp (Some v) \<noteq> 0"
proof (cases "v \<ge> 255")
  case True
  with assms show ?thesis by (simp add: toUint8Clamp_def)
next
  case False
  have f: "1 \<le> \<lfloor>v\<rfloor>" "\<lfloor>v\<rfloor> \<le> 254"
    using assms False by (simp_all add: le_floor_iff floor_le_iff)
  with roundHalfEven_cases[of v] have n: "1 \<le> roundHalfEven v" "roundHalfEven v \<le> 255"
    by auto
  have "uint (word_of_int (roundHalfEven v) :: byte) = roundHalfEven v"
    using n by (simp add: uint_word_of_int take_bit_int_eq_self)
  with n have "(word_of_int (roundHalfEven v) :: byte) \<noteq> 0"
    by auto
  with assms False show ?thesis by (simp add: toUint8Clamp_def)
qed

lemma byte_nonzero_real: "w \<noteq> 0 \<Longrightarrow> 1 \<le> real (unat (w :: byte))"
  using unat_gt_0[of w] by (simp del: of_nat_unat add: Suc_le_eq)

lemma kernelOf_1:
  "kernelOf 1 = [exp (- 1 / 2) / (1 + 2 * exp (- 1 / 2)), 1 / (1 + 2 * exp (- 1 / 2)),
                 exp (- 1 / 2) / (1 + 2 * exp (- 1 / 2))]"
proof -
  have u: "[0..<3] = [0, 1, 2::nat]" by (simp add: upt_rec)
  show ?thesis
    by (simp add: kernelOf_def Let_def u)
qed

lemma blur_2x1_first_byte:
  "data (blur \<lparr>width = 2, height = 1, data = [0, 0, 0, 0, 255, 255, 255, 255]\<rparr> 1) ! 0 \<noteq> 0"
proof -
  define e :: real where "e = exp (- 1 / 2)"
  define k0 where "k0 = e / (1 + 2 * e)"
  define k1 where "k1 = 1 / (1 + 2 * e)"
  define dat :: "byte list" where "dat = [0, 0, 0, 0, 255, 255, 255, 255]"
  have e: "1 / 2 \<le> e" "e < 1"
    using exp_ge_add_one_self[of "- 1 / 2"] by (simp_all add: e_def)
  have kern: "kernelOf 1 = [k0, k1, k0]"
    by (simp add: kernelOf_1 k0_def k1_def e_def)
  have t: "1 + 2 * e \<noteq> 0" using e by simp
  have "k0 + k1 + k0 = (e + 1 + e) / (1 + 2 * e)"
    by (simp add: k0_def k1_def add_divide_distrib)
  also have "\<dots> = 1" using t by simp
  finally have ksum: "k0 + k1 + k0 = 1" .
  have k0: "1 / 4 \<le> k0"
    using e by (simp add: k0_def field_simps)
  have cc: "clampCoord 2 0 0 1 = 0" "clampCoord 2 0 1 1 = 0" "clampCoord 2 0 2 1 = 1"
    "clampCoord 1 0 0 1 = 0" "clampCoord 1 0 1 1 = 0" "clampCoord 1 0 2 1 = 0"
    by (simp_all add: clampCoord_def)
  have ld: "length dat = 8" by (simp add: dat_def)
  have u3: "[0..<3] = [0, 1, 2::nat]" by (simp add: upt_rec)
  have u2: "[0..<2] = [0, 1::nat]" by (simp add: upt_rec)
  have h00: "hSum dat 2 1 [k0, k1, k0] 0 0 0 = Some (255 * k0)"
    by (simp add: hSum_def u3 clampCoord_def addMul_def rdReal_def rd_def dat_def)
  define out where "out = horizontalPass dat 2 1 1 [k0, k1, k0] dat"
  have out: "out = store4 (store4 dat 0 (hSum dat 2 1 [k0, k1, k0] 0 0)) 4
                     (hSum dat 2 1 [k0, k1, k0] 0 1)"
    by (simp add: out_def horizontalPass_def u2)
  have lo: "length out = 8"
    by (simp add: out_def length_horizontalPass dat_def)
  have "out ! 0 = toUint8Clamp (Some (255 * k0))"
    unfolding out by (simp add: store4_nth_below store4_nth_same h00 ld)
  moreover have "1 \<le> 255 * k0" using k0 by simp
  ultimately have o0: "out ! 0 \<noteq> 0" by (simp add: toUint8Clamp_nonzero)
  define x where "x = real (unat (out ! 0))"
  have x: "1 \<le> x" unfolding x_def by (rule byte_nonzero_real[OF o0])
  have "vSum out 2 1 1 [k0, k1, k0] 0 0 0 = Some (x * k0 + x * k1 + x * k0)"
    using lo by (simp add: vSum_def u3 clampCoord_def addMul_def rdReal_def rd_def x_def del: of_nat_unat)
  also have "x * k0 + x * k1 + x * k0 = x"
  proof -
    have "x * k0 + x * k1 + x * k0 = x * (k0 + k1 + k0)" by (simp only: distrib_left)
    then show ?thesis by (simp only: ksum mult_1_right)
  qed
  finally have v00: "vSum out 2 1 1 [k0, k1, k0] 0 0 0 = Some x" .
  have res: "data (blur \<lparr>width = 2, height = 1, data = dat\<rparr> 1)
      = store4 (store4 dat 0 (vSum out 2 1 1 [k0, k1, k0] 0 0)) 4 (vSum out 2 1 1 [k0, k1, k0] 0 1)"
    by (simp add: blur_def Let_def kern verticalPass_def u2 out_def)
  have "data (blur \<lparr>width = 2, height = 1, data = dat\<rparr> 1) ! 0 = toUint8Clamp (Some x)"
    unfolding res by (simp add: store4_nth_below store4_nth_same v00 ld del: One_nat_def)
  with x show ?thesis
    unfolding dat_def by (simp add: toUint8Clamp_nonzero)
qed

lemma trace_effect: "fst (trace img opts) = preprocess img opts"
  by (simp add: trace_def Let_def)

text \<open>
  What the stores of a pass leave in the buffer: each pixel is stored once, at its own
  four bytes, so after a pass every byte of a pixel is the clamped sum of that pass.
\<close>

lemma store4_nth:
  "idx + 3 < length buf \<Longrightarrow> c < 4 \<Longrightarrow> store4 buf idx f ! (idx + c) = toUint8Clamp (f c)"
proof -
  assume a: "idx + 3 < length buf" "c < 4"
  then consider "c = 0" | "c = 1" | "c = 2" | "c = 3" by linarith
  then show ?thesis using a(1) by cases (simp_all add: store4_def)
qed

lemma store4_nth_other:
  "i < idx \<or> idx + 3 < i \<Longrightarrow> store4 buf idx f ! i = buf ! i"
  by (auto simp: store4_def)

lemma fold_store4_nth:
  fixes F :: "nat \<times> nat \<Rightarrow> nat \<Rightarrow> jsreal"
  assumes "distinct (map ix yxs)" "\<forall>yx\<in>set yxs. ix yx * 4 + 3 < length buf" "yx \<in> set yxs" "c < 4"
  shows "fold (\<lambda>yx acc. store4 acc (ix yx * 4) (F yx)) yxs buf ! (ix yx * 4 + c) = toUint8Clamp (F yx c)"
  using assms(1,2,3)
proof (induction yxs arbitrary: buf rule: rev_induct)
  case Nil
  then show ?case by simp
next
  case (snoc z zs)
  let ?b = "fold (\<lambda>yx acc. store4 acc (ix yx * 4) (F yx)) zs buf"
  have len: "length ?b = length buf"
    by (induction zs arbitrary: buf) (simp_all add: length_store4)
  show ?case
  proof (cases "yx = z")
    case True
    have "ix z * 4 + 3 < length ?b" using snoc.prems(2) len by simp
    from store4_nth[OF this assms(4)] True show ?thesis by simp
  next
    case False
    with snoc.prems(3) have mem: "yx \<in> set zs" by simp
    with snoc.prems(1) have "ix yx \<noteq> ix z" by (auto simp: image_iff)
    then have "ix yx * 4 + c < ix z * 4 \<or> ix z * 4 + 3 < ix yx * 4 + c"
      using assms(4) by linarith
    from store4_nth_other[OF this]
    have "store4 ?b (ix z * 4) (F z) ! (ix yx * 4 + c) = ?b ! (ix yx * 4 + c)" .
    moreover have "?b ! (ix yx * 4 + c) = toUint8Clamp (F yx c)"
      using snoc.IH[of buf] snoc.prems(1,2) mem by simp
    ultimately show ?thesis by simp
  qed
qed

lemma distinct_pixel_index:
  "distinct (map (\<lambda>(py, px). py * w + px) (List.product [0..<h] [0..<w]))"
proof -
  have inj: "inj_on (\<lambda>(py, px). py * w + px) (set (List.product [0..<h] [0..<w]))"
  proof (rule inj_onI)
    fix u v
    assume u: "u \<in> set (List.product [0..<h] [0..<w])"
      and v: "v \<in> set (List.product [0..<h] [0..<w])"
      and eq: "(\<lambda>(py, px). py * w + px) u = (\<lambda>(py, px). py * w + px) v"
    obtain uy ux vy vx where uv: "u = (uy, ux)" "v = (vy, vx)" by (cases u; cases v) auto
    with u v have b: "ux < w" "vx < w" by auto
    from eq uv have e: "uy * w + ux = vy * w + vx" by simp
    then have "(uy * w + ux) div w = (vy * w + vx) div w" "(uy * w + ux) mod w = (vy * w + vx) mod w"
      by simp_all
    with b have "uy = vy" "ux = vx" by simp_all
    with uv show "u = v" by simp
  qed
  have "distinct (List.product [0..<h] [0..<w])"
    by (simp add: distinct_product)
  with inj show ?thesis
    unfolding distinct_map by blast
qed

lemma pixel_index_bound:
  assumes "yx \<in> set (List.product [0..<h] [0..<w])" "length buf = w * h * 4"
  shows "(case yx of (py, px) \<Rightarrow> py * w + px) * 4 + 3 < length buf"
proof -
  obtain py px where yx: "yx = (py, px)" by (cases yx)
  with assms(1) have b: "py < h" "px < w" by auto
  have "py * w + px < py * w + w" using b by simp
  also have "\<dots> = Suc py * w" by simp
  also have "\<dots> \<le> h * w" using b by (intro mult_le_mono1) simp
  finally have "py * w + px < w * h" by (simp add: mult.commute)
  then show ?thesis using assms(2) yx by simp
qed

lemma pass_nth:
  assumes "length buf = w * h * 4" "py < h" "px < w" "c < 4"
  shows "fold (\<lambda>(py, px) acc. store4 acc ((py * w + px) * 4) (H py px))
           (List.product [0..<h] [0..<w]) buf ! ((py * w + px) * 4 + c)
         = toUint8Clamp (H py px c)"
proof -
  have eq: "(\<lambda>(py, px) acc. store4 acc ((py * w + px) * 4) (H py px))
      = (\<lambda>yx acc. store4 acc ((case yx of (py, px) \<Rightarrow> py * w + px) * 4)
                       ((\<lambda>(py, px). H py px) yx))"
    by (auto simp: fun_eq_iff)
  have mem: "(py, px) \<in> set (List.product [0..<h] [0..<w])"
    using assms(2,3) by simp
  have bound: "\<forall>yx\<in>set (List.product [0..<h] [0..<w]).
      (case yx of (py, px) \<Rightarrow> py * w + px) * 4 + 3 < length buf"
    using pixel_index_bound[OF _ assms(1)] by blast
  from fold_store4_nth[OF distinct_pixel_index bound mem assms(4), of "\<lambda>(py, px). H py px"]
  show ?thesis unfolding eq by simp
qed

lemma horizontalPass_nth:
  assumes "length buf = w * h * 4" "py < h" "px < w" "c < 4"
  shows "horizontalPass dat w h radius kern buf ! ((py * w + px) * 4 + c)
         = toUint8Clamp (hSum dat w radius kern py px c)"
  unfolding horizontalPass_def by (rule pass_nth[OF assms])

lemma verticalPass_nth:
  assumes "length dat = w * h * 4" "py < h" "px < w" "c < 4"
  shows "verticalPass out w h radius kern dat ! ((py * w + px) * 4 + c)
         = toUint8Clamp (vSum out w h radius kern py px c)"
  unfolding verticalPass_def by (rule pass_nth[OF assms])

lemma blur_nth:
  assumes "length (data img) = width img * height img * 4" "1 \<le> radius"
    "py < height img" "px < width img" "c < 4"
  shows "data (blur img radius) ! ((py * width img + px) * 4 + c)
     = toUint8Clamp (vSum (horizontalPass (data img) (width img) (height img) radius
                              (kernelOf radius) (data img))
                       (width img) (height img) radius (kernelOf radius) py px c)"
  using assms(2) verticalPass_nth[OF assms(1,3,4,5)]
  by (simp add: blur_def Let_def)

text \<open>
  Claim C9 says that after tracing with a positive blur radius the bytes of the
  caller's buffer are unchanged. The vertical pass of \<^verbatim>\<open>blur\<close> stores into \<^verbatim>\<open>data\<close>, the
  caller's buffer: for a transparent black pixel next to an opaque white one and a
  radius of 1, in colour mode, the caller's buffer is changed by the call.
\<close>

theorem blur_in_place_counterexample:
  "data (fst (trace \<lparr>width = 2, height = 1, data = [0, 0, 0, 0, 255, 255, 255, 255]\<rparr>
                (defaultOptions\<lparr>blurradius := 1\<rparr>)))
     \<noteq> data \<lparr>width = 2, height = 1, data = [0, 0, 0, 0, 255, 255, 255, 255]\<rparr>"
proof -
  have "fst (trace \<lparr>width = 2, height = 1, data = [0, 0, 0, 0, 255, 255, 255, 255]\<rparr>
                (defaultOptions\<lparr>blurradius := 1\<rparr>))
      = blur \<lparr>width = 2, height = 1, data = [0, 0, 0, 0, 255, 255, 255, 255]\<rparr> 1"
    by (simp add: trace_effect preprocess_def defaultOptions_def)
  moreover have "data \<lparr>width = 2, height = 1, data = [0, 0, 0, 0, 255, 255, 255, 255 :: byte]\<rparr> ! 0 = 0"
    by simp
  ultimately show ?thesis
    using blur_2x1_first_byte by metis
qed

text \<open>
  Claim C9 as the code has it, in colour mode: the caller's image after \<^verbatim>\<open>trace\<close> is the
  blurred image when the blur radius is positive, and the image as it was when the
  radius is not positive. \<^verbatim>\<open>blur\<close> leaves its result in the caller's buffer: the buffer
  keeps its length and the image its dimensions; a radius below 1 leaves the image as
  it is; with a radius of at least 1 and a buffer of four bytes per pixel, every byte
  of the caller's buffer is the clamped vertical sum over the horizontally blurred
  copy (the sums are those of the model of \<^verbatim>\<open>blur\<close>, in exact arithmetic).
\<close>

theorem blur_in_place:
  "(colorMode opts = Color \<longrightarrow>
      fst (trace img opts) = (if 0 < blurradius opts then blur img (blurradius opts) else img))
   \<and> length (data (blur img radius)) = length (data img)
   \<and> width (blur img radius) = width img \<and> height (blur img radius) = height img
   \<and> (radius < 1 \<longrightarrow> blur img radius = img)
   \<and> (1 \<le> radius \<and> length (data img) = width img * height img * 4 \<longrightarrow>
        (\<forall>py<height img. \<forall>px<width img. \<forall>c<4.
           data (blur img radius) ! ((py * width img + px) * 4 + c)
             = toUint8Clamp
                 (vSum (horizontalPass (data img) (width img) (height img) radius
                          (kernelOf radius) (data img))
                    (width img) (height img) radius (kernelOf radius) py px c)))"
proof -
  have "colorMode opts = Color \<longrightarrow>
      fst (trace img opts) = (if 0 < blurradius opts then blur img (blurradius opts) else img)"
    by (simp add: trace_effect preprocess_def)
  moreover have "length (data (blur img radius)) = length (data img)"
    by (rule length_blur)
  moreover have "width (blur img radius) = width img \<and> height (blur img radius) = height img"
    by (simp add: blur_def Let_def)
  moreover have "radius < 1 \<longrightarrow> blur img radius = img"
    by (simp add: blur_def)
  moreover have "1 \<le> radius \<and> length (data img) = width img * height img * 4 \<longrightarrow>
        (\<forall>py<height img. \<forall>px<width img. \<forall>c<4.
           data (blur img radius) ! ((py * width img + px) * 4 + c)
             = toUint8Clamp
                 (vSum (horizontalPass (data img) (width img) (height img) radius
                          (kernelOf radius) (data img))
                    (width img) (height img) radius (kernelOf radius) py px c))"
    using blur_nth[of img radius] by blast
  ultimately show ?thesis by blast
qed

theorem blur_in_place_witness:
  "colorMode (defaultOptions\<lparr>blurradius := 1\<rparr>) = Color
   \<and> 0 < blurradius (defaultOptions\<lparr>blurradius := 1\<rparr>)
   \<and> fst (trace \<lparr>width = 2, height = 1, data = [0, 0, 0, 0, 255, 255, 255, 255]\<rparr>
            (defaultOptions\<lparr>blurradius := 1\<rparr>))
       = blur \<lparr>width = 2, height = 1, data = [0, 0, 0, 0, 255, 255, 255, 255]\<rparr> 1
   \<and> (0::int) < 1
   \<and> blur \<lparr>width = 2, height = 1, data = [0, 0, 0, 0, 255, 255, 255, 255]\<rparr> 0
       = \<lparr>width = 2, height = 1, data = [0, 0, 0, 0, 255, 255, 255, 255]\<rparr>
   \<and> (1::int) \<le> 1
   \<and> length (data \<lparr>width = 2, height = 1, data = [0, 0, 0, 0, 255, 255, 255, 255 :: byte]\<rparr>)
       = width \<lparr>width = 2, height = 1, data = [0, 0, 0, 0, 255, 255, 255, 255 :: byte]\<rparr>
         * height \<lparr>width = 2, height = 1, data = [0, 0, 0, 0, 255, 255, 255, 255 :: byte]\<rparr> * 4
   \<and> data (blur \<lparr>width = 2, height = 1, data = [0, 0, 0, 0, 255, 255, 255, 255 :: byte]\<rparr> 1) ! ((0 * 2 + 0) * 4 + 0)
       = toUint8Clamp
           (vSum (horizontalPass [0, 0, 0, 0, 255, 255, 255, 255] 2 1 1 (kernelOf 1)
                    [0, 0, 0, 0, 255, 255, 255, 255])
              2 1 1 (kernelOf 1) 0 0 0)"
proof -
  let ?img = "\<lparr>width = 2, height = 1, data = [0, 0, 0, 0, 255, 255, 255, 255 :: byte]\<rparr>"
  let ?opts = "defaultOptions\<lparr>blurradius := 1\<rparr>"
  have h: "colorMode ?opts = Color" and hb: "0 < blurradius ?opts"
    by (simp_all add: defaultOptions_def)
  have h0: "(0::int) < 1" and h2: "(1::int) \<le> 1" by simp_all
  have h1: "blurradius ?opts = 1" by simp
  have h3: "length (data ?img) = width ?img * height ?img * 4" by simp
  from blur_in_place[of ?opts ?img 0] h h0
  have a0: "fst (trace ?img ?opts) = (if 0 < blurradius ?opts then blur ?img (blurradius ?opts) else ?img)"
    and a1: "blur ?img 0 = ?img"
    by blast+
  from a0 hb have a: "fst (trace ?img ?opts) = blur ?img 1"
    unfolding h1 by simp
  from blur_in_place[of ?opts ?img 1] h2 h3
  have q: "\<forall>py<height ?img. \<forall>px<width ?img. \<forall>c<4.
           data (blur ?img 1) ! ((py * width ?img + px) * 4 + c)
             = toUint8Clamp
                 (vSum (horizontalPass (data ?img) (width ?img) (height ?img) 1
                          (kernelOf 1) (data ?img))
                    (width ?img) (height ?img) 1 (kernelOf 1) py px c)"
    by blast
  have b: "data (blur ?img 1) ! ((0 * 2 + 0) * 4 + 0)
       = toUint8Clamp
           (vSum (horizontalPass [0, 0, 0, 0, 255, 255, 255, 255] 2 1 1 (kernelOf 1)
                    [0, 0, 0, 0, 255, 255, 255, 255])
              2 1 1 (kernelOf 1) 0 0 0)"
    using q[rule_format, of 0 0 0] by simp
  from h hb h0 h2 h3 a a1 b show ?thesis by blast
qed

end
